theory Spec2Isabelle
  imports Main "HOL-Library.Word"
begin

unbundle bit_operations_syntax

section \<open>Data model\<close>

text \<open>
  Python \<open>bytes\<close> are lists of 8-bit words. A Python \<open>str\<close> is represented by its
  UTF-8 bytes as an Isabelle \<open>string\<close>: the empty \<open>str\<close> is the empty list, and a
  \<open>str\<close> is pure ASCII iff every character is below 128. Python integers are \<open>int\<close>.
\<close>

type_synonym byte = "8 word"

text \<open>\<open>models.py\<close>: the dataclass \<open>FormationDetailInfo\<close>.\<close>

record FormationDetailInfo =
  slot :: int
  personality_id :: int
  ego1 :: int
  ego2 :: int
  ego3 :: int
  ego4 :: int
  ego5 :: int
  enabled :: bool
  slot_type :: int

text \<open>The exceptions that the library calls and the converters can raise.\<close>

datatype py_error =
    ValueError
  | BinasciiError
  | StructError
  | GzipError
  | UnicodeDecodeError

section \<open>Library functions used by the converters\<close>

subsection \<open>\<open>base64.b64encode\<close> and \<open>base64.b64decode\<close>\<close>

definition b64_alphabet :: string where
  "b64_alphabet =
     ''ABCDEFGHIJKLMNOPQRSTUVWXYZabcdefghijklmnopqrstuvwxyz0123456789+/''"

definition table_b2a_base64 :: "byte \<Rightarrow> char" where
  "table_b2a_base64 w = b64_alphabet ! unat w"

definition table_a2b_base64 :: "char \<Rightarrow> byte option" where
  "table_a2b_base64 c = map_option of_nat (map_of (zip b64_alphabet [0..<64]) c)"

text \<open>
  \<open>b64encode\<close>: every three bytes give four characters of the standard alphabet; a
  final group of one or two bytes is padded with \<open>=\<close>.
\<close>

fun b64encode :: "byte list \<Rightarrow> string" where
  "b64encode [] = []"
| "b64encode [a] =
     [table_b2a_base64 (drop_bit 2 a),
      table_b2a_base64 (push_bit 4 (a AND 3)),
      CHR ''='', CHR ''='']"
| "b64encode [a, b] =
     [table_b2a_base64 (drop_bit 2 a),
      table_b2a_base64 (push_bit 4 (a AND 3) OR drop_bit 4 b),
      table_b2a_base64 (push_bit 2 (b AND 15)),
      CHR ''='']"
| "b64encode (a # b # c # rest) =
     [table_b2a_base64 (drop_bit 2 a),
      table_b2a_base64 (push_bit 4 (a AND 3) OR drop_bit 4 b),
      table_b2a_base64 (push_bit 2 (b AND 15) OR drop_bit 6 c),
      table_b2a_base64 (c AND 63)] @ b64encode rest"

text \<open>
  \<open>binascii.a2b_base64\<close> with \<open>strict_mode\<close> off, which \<open>b64decode\<close> calls: a
  character outside the alphabet is skipped, a pad character ends the input once the
  current quad is complete, and an incomplete quad at the end of the input raises
  \<open>binascii.Error\<close>. The state is the position in the quad, the bits left over from
  the previous character, and the count of pad characters seen.
\<close>

fun a2b_base64 :: "nat \<Rightarrow> byte \<Rightarrow> nat \<Rightarrow> byte list \<Rightarrow> string \<Rightarrow> py_error + byte list" where
  "a2b_base64 quad_pos leftchar pads bin_data [] =
     (if quad_pos \<noteq> 0 then Inl BinasciiError else Inr bin_data)"
| "a2b_base64 quad_pos leftchar pads bin_data (this_ch # ascii_data) =
     (if this_ch = CHR ''='' then
        (if quad_pos \<ge> 2 \<and> quad_pos + (pads + 1) \<ge> 4 then Inr bin_data
         else a2b_base64 quad_pos leftchar (if quad_pos \<ge> 2 then pads + 1 else pads)
                bin_data ascii_data)
      else
        (case table_a2b_base64 this_ch of
           None \<Rightarrow> a2b_base64 quad_pos leftchar pads bin_data ascii_data
         | Some v \<Rightarrow>
            (if quad_pos = 0 then a2b_base64 1 v 0 bin_data ascii_data
             else if quad_pos = 1 then
               a2b_base64 2 (v AND 15) 0
                 (bin_data @ [push_bit 2 leftchar OR drop_bit 4 v]) ascii_data
             else if quad_pos = 2 then
               a2b_base64 3 (v AND 3) 0
                 (bin_data @ [push_bit 4 leftchar OR drop_bit 2 v]) ascii_data
             else
               a2b_base64 0 0 0
                 (bin_data @ [push_bit 6 leftchar OR v]) ascii_data)))"

text \<open>
  \<open>b64decode\<close> on a \<open>str\<close>: a non-ASCII character raises \<open>ValueError\<close>, otherwise
  the ASCII bytes go to \<open>a2b_base64\<close>.
\<close>

definition b64decode :: "string \<Rightarrow> py_error + byte list" where
  "b64decode s =
     (if \<exists>c \<in> set s. of_char c \<ge> (128 :: nat) then Inl ValueError
      else a2b_base64 0 0 0 [] s)"

subsection \<open>\<open>struct.pack('<i', val)\<close> and \<open>struct.unpack\<close>\<close>

text \<open>
  \<open>struct.pack('<i', val)\<close> raises \<open>struct.error\<close> unless \<open>val\<close> is a signed 32-bit
  value; otherwise it gives the four bytes of the two's complement, least significant first.
\<close>

definition struct_pack_i :: "int \<Rightarrow> py_error + byte list" where
  "struct_pack_i val =
     (if - 2147483648 \<le> val \<and> val \<le> 2147483647 then
        (let w = (word_of_int val :: 32 word)
         in Inr [ucast w, ucast (drop_bit 8 w), ucast (drop_bit 16 w), ucast (drop_bit 24 w)])
      else Inl StructError)"

text \<open>\<open>struct.unpack('<Ni', data)\<close> on a buffer of whole 4-byte groups.\<close>

fun struct_unpack_i :: "byte list \<Rightarrow> int list" where
  "struct_unpack_i (b0 # b1 # b2 # b3 # rest) =
     sint (ucast b0 OR push_bit 8 (ucast b1) OR push_bit 16 (ucast b2)
             OR push_bit 24 (ucast b3) :: 32 word)
       # struct_unpack_i rest"
| "struct_unpack_i _ = []"

subsection \<open>\<open>str.encode('utf-8')\<close> and \<open>bytes.decode('utf-8')\<close>\<close>

definition utf8_encode :: "string \<Rightarrow> byte list" where
  "utf8_encode text = map of_char text"

definition utf8_cont :: "byte \<Rightarrow> bool" where
  "utf8_cont b \<longleftrightarrow> 0x80 \<le> b \<and> b \<le> 0xBF"

text \<open>The well-formed byte sequences that the strict UTF-8 decoder accepts.\<close>

fun utf8_valid :: "byte list \<Rightarrow> bool" where
  "utf8_valid [] = True"
| "utf8_valid (b0 # bs) =
     (if b0 \<le> 0x7F then utf8_valid bs
      else if 0xC2 \<le> b0 \<and> b0 \<le> 0xDF then
        length bs \<ge> 1 \<and> utf8_cont (bs ! 0) \<and> utf8_valid (drop 1 bs)
      else if 0xE0 \<le> b0 \<and> b0 \<le> 0xEF then
        length bs \<ge> 2
        \<and> (if b0 = 0xE0 then 0xA0 \<le> bs ! 0 \<and> bs ! 0 \<le> 0xBF
            else if b0 = 0xED then 0x80 \<le> bs ! 0 \<and> bs ! 0 \<le> 0x9F
            else utf8_cont (bs ! 0))
        \<and> utf8_cont (bs ! 1) \<and> utf8_valid (drop 2 bs)
      else if 0xF0 \<le> b0 \<and> b0 \<le> 0xF4 then
        length bs \<ge> 3
        \<and> (if b0 = 0xF0 then 0x90 \<le> bs ! 0 \<and> bs ! 0 \<le> 0xBF
            else if b0 = 0xF4 then 0x80 \<le> bs ! 0 \<and> bs ! 0 \<le> 0x8F
            else utf8_cont (bs ! 0))
        \<and> utf8_cont (bs ! 1) \<and> utf8_cont (bs ! 2) \<and> utf8_valid (drop 3 bs)
      else False)"

definition utf8_decode :: "byte list \<Rightarrow> py_error + string" where
  "utf8_decode data =
     (if utf8_valid data then Inr (map (\<lambda>b. char_of (unat b)) data)
      else Inl UnicodeDecodeError)"

subsection \<open>\<open>gzip.GzipFile\<close>\<close>

text \<open>
  The gzip library is a parameter of the model: \<open>gzip_write\<close> gives the bytes left in
  the stream after a \<open>GzipFile\<close> opened for writing has taken the data and been closed
  (the header it writes carries the time of the call), and \<open>gzip_read\<close> gives what
  \<open>read()\<close> returns on a \<open>GzipFile\<close> opened for reading, or the exception it raises.
\<close>

record gzip_lib =
  gzip_write :: "byte list \<Rightarrow> byte list"
  gzip_read :: "byte list \<Rightarrow> py_error + byte list"

text \<open>
  What the model relies on: reading back what was written gives the data, and a gzip
  stream is never empty (it starts with a ten-byte header).
\<close>

definition gzip_ok :: "gzip_lib \<Rightarrow> bool" where
  "gzip_ok G \<longleftrightarrow>
     (\<forall>data. gzip_read G (gzip_write G data) = Inr data) \<and> (\<forall>data. gzip_write G data \<noteq> [])"

text \<open>
  A container that only frames the data with the ten header bytes and eight trailer
  bytes of a gzip member; it instantiates the parameter where a concrete one is needed.
\<close>

definition stored_header :: "byte list" where
  "stored_header = [0x1F, 0x8B, 8, 0, 0, 0, 0, 0, 2, 0xFF]"

definition stored_gzip :: gzip_lib where
  "stored_gzip =
     \<lparr> gzip_write = (\<lambda>data. stored_header @ data @ replicate 8 0),
       gzip_read = (\<lambda>stream.
         if length stream \<ge> 18 \<and> take 10 stream = stored_header
         then Inr (take (length stream - 18) (drop 10 stream))
         else Inl GzipError) \<rparr>"

section \<open>\<open>converters/bool_converter.py\<close>\<close>

text \<open>The inner loop of \<open>to_base64\<close>: the byte built from the eight bits at \<open>i\<close>.\<close>

definition byte_val :: "bool list \<Rightarrow> nat \<Rightarrow> byte" where
  "byte_val bools i =
     foldl (\<lambda>bv j. if i + j < length bools \<and> bools ! (i + j)
                     then bv OR push_bit (7 - j) 1 else bv)
       0 [0..<8]"

text \<open>The outer loop of \<open>to_base64\<close>, over \<open>range(0, len(bools), 8)\<close>.\<close>

definition bools_to_bytes :: "bool list \<Rightarrow> byte list" where
  "bools_to_bytes bools =
     map (\<lambda>k. byte_val bools (8 * k)) [0..<(length bools + 7) div 8]"

definition to_base64 :: "bool list \<Rightarrow> string" where
  "to_base64 bools = (if bools = [] then [] else b64encode (bools_to_bytes bools))"

text \<open>The loop of \<open>from_base64\<close>, which breaks at the first bit beyond the data.\<close>

fun bytes_to_bits :: "byte list \<Rightarrow> nat list \<Rightarrow> bool list" where
  "bytes_to_bits data [] = []"
| "bytes_to_bits data (bit_index # rest) =
     (if drop_bit 3 bit_index \<ge> length data then []
      else (data ! (drop_bit 3 bit_index) AND push_bit (7 - (bit_index AND 7)) 1 \<noteq> 0)
             # bytes_to_bits data rest)"

definition from_base64 :: "string \<Rightarrow> int \<Rightarrow> bool list" where
  "from_base64 b64_string expected_count =
     (if b64_string = [] then []
      else case b64decode b64_string of
             Inl e \<Rightarrow> []
           | Inr data \<Rightarrow>
               bytes_to_bits data
                 [0..<(if expected_count > 0 then nat expected_count else length data * 8)])"

section \<open>\<open>converters/int_converter.py\<close>\<close>

text \<open>The loop of \<open>encode\<close> that extends the buffer; the first failing pack raises.\<close>

fun byte_buffer :: "int list \<Rightarrow> py_error + byte list" where
  "byte_buffer [] = Inr []"
| "byte_buffer (val # vals) =
     (case struct_pack_i val of
        Inl e \<Rightarrow> Inl e
      | Inr packed \<Rightarrow>
          (case byte_buffer vals of
             Inl e \<Rightarrow> Inl e
           | Inr buf \<Rightarrow> Inr (packed @ buf)))"

text \<open>The argument is \<open>None\<close> or a list, hence the option.\<close>

definition IntListBase64Converter_encode :: "int list option \<Rightarrow> py_error + string" where
  "IntListBase64Converter_encode int_list =
     (case int_list of
        None \<Rightarrow> Inl ValueError
      | Some vals \<Rightarrow>
          if vals = [] then Inr []
          else (case byte_buffer vals of
                  Inl e \<Rightarrow> Inl e
                | Inr buf \<Rightarrow> Inr (b64encode buf)))"

definition IntListBase64Converter_decode :: "string \<Rightarrow> int list" where
  "IntListBase64Converter_decode b64_string =
     (if b64_string = [] then []
      else case b64decode b64_string of
             Inl e \<Rightarrow> []
           | Inr decoded_bytes \<Rightarrow>
               (let count = length decoded_bytes div 4
                in struct_unpack_i (take (count * 4) decoded_bytes)))"

section \<open>\<open>converters/text_converter.py\<close>\<close>

text \<open>
  In \<open>decompress\<close> each library call inside the \<open>try\<close> may raise; the handler returns
  the empty string. In \<open>compress\<close> no call of the \<open>try\<close> block has a failing case in
  this model.
\<close>

definition decompress :: "gzip_lib \<Rightarrow> string \<Rightarrow> string" where
  "decompress G compressed_string =
     (if compressed_string = [] then []
      else case b64decode compressed_string of
             Inl e \<Rightarrow> []
           | Inr compressed_bytes \<Rightarrow>
               (case gzip_read G compressed_bytes of
                  Inl e \<Rightarrow> []
                | Inr decompressed_bytes \<Rightarrow>
                    (case utf8_decode decompressed_bytes of
                       Inl e \<Rightarrow> []
                     | Inr text \<Rightarrow> text)))"

definition compress :: "gzip_lib \<Rightarrow> string \<Rightarrow> string" where
  "compress G text =
     (if text = [] then []
      else b64encode (gzip_write G (utf8_encode text)))"

section \<open>\<open>formation_deck.py\<close>\<close>

subsection \<open>\<open>FormationDeckCode.encode\<close>\<close>

definition int_to_bools :: "int \<Rightarrow> nat \<Rightarrow> bool list" where
  "int_to_bools val bit_count =
     map (\<lambda>i. drop_bit i val AND 1 \<noteq> 0) (rev [0..<bit_count])"

text \<open>The dict comprehension \<open>{f.slot: f for f in formations}\<close>.\<close>

definition formation_map :: "FormationDetailInfo list \<Rightarrow> (int \<rightharpoonup> FormationDetailInfo)" where
  "formation_map formations = foldl (\<lambda>m f. m(slot f \<mapsto> f)) Map.empty formations"

text \<open>The modifiers \<open>(p_mod, s_type, e_mods)\<close> chosen for one slot number.\<close>

definition id_mod :: "int \<Rightarrow> int" where
  "id_mod ident = (if ident > 0 then ident mod 100 else 0)"

definition slot_mods :: "FormationDetailInfo option \<Rightarrow> int \<times> int \<times> int list" where
  "slot_mods entry =
     (case entry of
        Some f \<Rightarrow>
          (id_mod (personality_id f), slot_type f,
           [id_mod (ego1 f), id_mod (ego2 f), id_mod (ego3 f), id_mod (ego4 f), id_mod (ego5 f)])
      | None \<Rightarrow> (0, 0, [0, 0, 0, 0, 0]))"

definition pack_bits :: "int \<times> int \<times> int list \<Rightarrow> bool list" where
  "pack_bits mods =
     (case mods of (p_mod, s_type, e_mods) \<Rightarrow>
        int_to_bools p_mod 7 @ int_to_bools s_type 4
          @ concat (map (\<lambda>e_mod. int_to_bools e_mod 7) e_mods))"

text \<open>The list \<open>all_bits\<close> after the loop over slots 1 to 12.\<close>

definition all_bits :: "FormationDetailInfo list \<Rightarrow> bool list" where
  "all_bits formations =
     foldl (\<lambda>bits slot_num. bits @ pack_bits (slot_mods (formation_map formations slot_num)))
       [True] [1..12]"

definition int_list :: "FormationDetailInfo list \<Rightarrow> int list" where
  "int_list formations =
     concat (map (\<lambda>f. [personality_id f, slot_type f,
                        ego1 f, ego2 f, ego3 f, ego4 f, ego5 f]) formations)"

definition FormationDeckCode_encode ::
    "gzip_lib \<Rightarrow> FormationDetailInfo list \<Rightarrow> bool \<Rightarrow> py_error + string" where
  "FormationDeckCode_encode G formations out_of_rule =
     (if formations = [] then Inr []
      else if out_of_rule then
        (case IntListBase64Converter_encode (Some (int_list formations)) of
           Inl e \<Rightarrow> Inl e
         | Inr inner_b64 \<Rightarrow> Inr (compress G inner_b64))
      else Inr (compress G (to_base64 (all_bits formations))))"

subsection \<open>\<open>FormationDeckCode.decode\<close>\<close>

text \<open>
  One of the bit-reading loops: \<open>n\<close> rounds, each taking a bit only while the cursor is
  inside the list.
\<close>

fun read_bits :: "bool list \<Rightarrow> nat \<Rightarrow> int \<times> nat \<Rightarrow> int \<times> nat" where
  "read_bits bools 0 (val, bit_index) = (val, bit_index)"
| "read_bits bools (Suc n) (val, bit_index) =
     (if bit_index < length bools
      then read_bits bools n ((val * 2) OR (if bools ! bit_index then 1 else 0), bit_index + 1)
      else read_bits bools n (val, bit_index))"

fun read_ego_mods :: "bool list \<Rightarrow> nat \<Rightarrow> nat \<Rightarrow> int list \<times> nat" where
  "read_ego_mods bools 0 bit_index = ([], bit_index)"
| "read_ego_mods bools (Suc k) bit_index =
     (case read_bits bools 7 (0, bit_index) of (ego_mod, bit_index') \<Rightarrow>
        (case read_ego_mods bools k bit_index' of (ego_mods, bit_index'') \<Rightarrow>
           (ego_mod # ego_mods, bit_index'')))"

text \<open>The three reads of one slot: \<open>((personality_mod, slot_type, ego_mods), bit_index)\<close>.\<close>

definition read_slot :: "bool list \<Rightarrow> nat \<Rightarrow> (int \<times> int \<times> int list) \<times> nat" where
  "read_slot bools bit_index =
     (case read_bits bools 7 (0, bit_index) of (personality_mod, i1) \<Rightarrow>
        (case read_bits bools 4 (0, i1) of (s_type, i2) \<Rightarrow>
           (case read_ego_mods bools 5 i2 of (ego_mods, i3) \<Rightarrow>
              ((personality_mod, s_type, ego_mods), i3))))"

text \<open>
  The rest of the loop body: reconstruction of the IDs, the validation block, and the
  slot appended, if any. It returns the new \<open>had_errors\<close> with it.
\<close>

definition bad_personality :: "int \<Rightarrow> bool" where
  "bad_personality pid \<longleftrightarrow> pid > 0 \<and> (pid < 10000 \<or> pid > 99999)"

definition bad_ego :: "int \<Rightarrow> bool" where
  "bad_ego ego_id \<longleftrightarrow> ego_id > 0 \<and> (ego_id < 20000 \<or> ego_id > 99999)"

definition bad_slot_type :: "int \<Rightarrow> bool" where
  "bad_slot_type s_type \<longleftrightarrow> s_type < 0 \<or> s_type > 15"

definition build_slot ::
    "bool \<Rightarrow> bool \<Rightarrow> int \<Rightarrow> int \<times> int \<times> int list \<Rightarrow> FormationDetailInfo list \<times> bool" where
  "build_slot validate had_errors slot_num mods =
     (case mods of (personality_mod, s_type, ego_mods) \<Rightarrow>
        (let slot_offset = slot_num * 100;
             pid = (if personality_mod > 0 then personality_mod + 10000 + slot_offset else 0);
             egos = map (\<lambda>ego_mod. if ego_mod > 0 then ego_mod + 20000 + slot_offset else 0)
                      ego_mods;
             had_errors1 = (had_errors \<or> (validate \<and> bad_personality pid));
             pid' = (if validate \<and> bad_personality pid then 0 else pid);
             had_errors2 = (had_errors1 \<or> (validate \<and> list_ex bad_ego egos));
             egos' = (if validate then map (\<lambda>ego_id. if bad_ego ego_id then 0 else ego_id) egos
                      else egos);
             had_errors3 = (had_errors2 \<or> (validate \<and> bad_slot_type s_type));
             s_type' = (if validate \<and> bad_slot_type s_type then 0 else s_type)
         in (if personality_mod > 0 \<or> list_ex (\<lambda>ego_id. ego_id \<noteq> 0) egos' then
               [\<lparr> slot = slot_num, personality_id = pid',
                  ego1 = egos' ! 0, ego2 = egos' ! 1, ego3 = egos' ! 2,
                  ego4 = egos' ! 3, ego5 = egos' ! 4,
                  enabled = (s_type' > 0), slot_type = s_type' \<rparr>]
             else [],
             had_errors3)))"

text \<open>One round of the loop over \<open>range(1, 13)\<close> on \<open>(formations, had_errors, bit_index)\<close>.\<close>

definition decode_slot ::
    "bool \<Rightarrow> bool list \<Rightarrow> FormationDetailInfo list \<times> bool \<times> nat \<Rightarrow> int
       \<Rightarrow> FormationDetailInfo list \<times> bool \<times> nat" where
  "decode_slot validate bools state slot_num =
     (case state of (formations, had_errors, bit_index) \<Rightarrow>
        (case read_slot bools bit_index of (mods, bit_index') \<Rightarrow>
           (case build_slot validate had_errors slot_num mods of (emitted, had_errors') \<Rightarrow>
              (formations @ emitted, had_errors', bit_index'))))"

definition decode_bools :: "bool \<Rightarrow> bool list \<Rightarrow> FormationDetailInfo list \<times> bool" where
  "decode_bools validate bools =
     (case foldl (decode_slot validate bools) ([], False, 1) [1..12] of
        (formations, had_errors, bit_index) \<Rightarrow> (formations, had_errors))"

definition FormationDeckCode_decode ::
    "gzip_lib \<Rightarrow> string \<Rightarrow> bool \<Rightarrow> FormationDetailInfo list \<times> bool" where
  "FormationDeckCode_decode G encoded validate =
     (if encoded = [] then ([], False)
      else (let inner_b64 = decompress G encoded
            in if inner_b64 = [] then ([], False)
               else (let bools = from_base64 inner_b64 0x229
                     in if bools = [] then ([], False)
                        else decode_bools validate bools)))"

section \<open>Notions used in the statements\<close>

text \<open>
  The moduli that the loop of \<open>decode\<close> reads for the slot numbers \<open>slot_nums\<close>, with
  the cursor threaded from one slot to the next as in the loop.
\<close>

fun read_slots :: "bool list \<Rightarrow> nat \<Rightarrow> int list \<Rightarrow> (int \<times> (int \<times> int \<times> int list)) list" where
  "read_slots bools bit_index [] = []"
| "read_slots bools bit_index (slot_num # slot_nums) =
     (case read_slot bools bit_index of (mods, bit_index') \<Rightarrow>
        (slot_num, mods) # read_slots bools bit_index' slot_nums)"

text \<open>A slot has a nonzero personality modulus or a nonzero equipment modulus.\<close>

definition has_mod :: "int \<times> int \<times> int list \<Rightarrow> bool" where
  "has_mod mods = (case mods of (p_mod, s_type, e_mods) \<Rightarrow> p_mod > 0 \<or> list_ex (\<lambda>e. e > 0) e_mods)"

text \<open>The ranges of what is read from 7, 4 and five times 7 bits.\<close>

definition mods_ok :: "int \<times> int \<times> int list \<Rightarrow> bool" where
  "mods_ok mods =
     (case mods of (p_mod, s_type, e_mods) \<Rightarrow>
        0 \<le> p_mod \<and> p_mod < 128 \<and> 0 \<le> s_type \<and> s_type < 16
        \<and> length e_mods = 5 \<and> list_all (\<lambda>e. 0 \<le> e \<and> e < 128) e_mods)"

text \<open>What the 7-bit, 4-bit and 7-bit fields keep of the modifiers that \<open>encode\<close> packs.\<close>

definition wire_mods :: "int \<times> int \<times> int list \<Rightarrow> int \<times> int \<times> int list" where
  "wire_mods mods =
     (case mods of (p_mod, s_type, e_mods) \<Rightarrow>
        (take_bit 7 p_mod, take_bit 4 s_type, map (take_bit 7) e_mods))"

text \<open>
  The valid ranges of a slot as section 3 of the specification words them: an ID is 0, or
  lies between its namespace base and 99999 and is \<open>slot * 100 + base + modulus\<close> with a
  modulus in 0..127.
\<close>

definition spec_id :: "int \<Rightarrow> int \<Rightarrow> int \<Rightarrow> bool" where
  "spec_id base slot_num ident \<longleftrightarrow>
     ident = 0 \<or>
     (base \<le> ident \<and> ident \<le> 99999
      \<and> 0 \<le> ident - slot_num * 100 - base \<and> ident - slot_num * 100 - base \<le> 127)"

text \<open>The IDs that the two decimal digits on the wire can carry: 0, or a modulus in 1..99.\<close>

definition wire_id :: "int \<Rightarrow> int \<Rightarrow> int \<Rightarrow> bool" where
  "wire_id base slot_num ident \<longleftrightarrow>
     ident = 0 \<or>
     (1 \<le> ident - slot_num * 100 - base \<and> ident - slot_num * 100 - base \<le> 99)"

definition formation_ok :: "(int \<Rightarrow> int \<Rightarrow> int \<Rightarrow> bool) \<Rightarrow> FormationDetailInfo \<Rightarrow> bool" where
  "formation_ok id_ok f \<longleftrightarrow>
     1 \<le> slot f \<and> slot f \<le> 12
     \<and> id_ok 10000 (slot f) (personality_id f)
     \<and> list_all (id_ok 20000 (slot f)) [ego1 f, ego2 f, ego3 f, ego4 f, ego5 f]
     \<and> 0 \<le> slot_type f \<and> slot_type f \<le> 15"

text \<open>A nonempty slot, and a slot with \<open>enabled\<close> derived as \<open>decode\<close> derives it.\<close>

definition has_ids :: "FormationDetailInfo \<Rightarrow> bool" where
  "has_ids f \<longleftrightarrow>
     0 < personality_id f \<or> list_ex (\<lambda>e. 0 < e) [ego1 f, ego2 f, ego3 f, ego4 f, ego5 f]"

definition derived :: "FormationDetailInfo \<Rightarrow> FormationDetailInfo" where
  "derived f = f\<lparr>enabled := slot_type f > 0\<rparr>"

section \<open>Properties\<close>

subsection \<open>Base-64\<close>

lemma masks: "(3::byte) = mask 2" "(15::byte) = mask 4" "(63::byte) = mask 6"
  by (simp_all add: mask_eq_exp_minus_1)

lemma lt8: "n < 8 \<Longrightarrow> n \<in> set [0..<8]"
  by simp

lemma upt8: "[0..<8] = [0, 1, 2, 3, 4, 5, 6, 7::nat]"
  by (simp add: upt_rec)

lemma bit_byte: "bit (w::byte) n \<Longrightarrow> n < 8"
  by (drule bit_imp_le_length) simp

lemma quad_byte1:
  "push_bit 2 (drop_bit 2 a) OR drop_bit 4 (push_bit 4 (a AND 3) OR drop_bit 4 b) = (a::byte)"
  unfolding masks
  apply (rule bit_word_eqI)
  subgoal for n
    using lt8[of n, unfolded upt8]
    by (auto simp add: bit_simps numeral_2_eq_2[symmetric] numeral_3_eq_3[symmetric])
  done

lemma quad_byte2:
  "push_bit 4 ((push_bit 4 (a AND 3) OR drop_bit 4 b) AND 15)
     OR drop_bit 2 (push_bit 2 (b AND 15) OR drop_bit 6 c) = (b::byte)"
  unfolding masks
  apply (rule bit_word_eqI)
  subgoal for n
    using lt8[of n, unfolded upt8] by (auto simp add: bit_simps)
  done

lemma quad_byte3:
  "push_bit 6 ((push_bit 2 (b AND 15) OR drop_bit 6 c) AND 3) OR (c AND 63) = (c::byte)"
  unfolding masks
  apply (rule bit_word_eqI)
  subgoal for n
    using lt8[of n, unfolded upt8] by (auto simp add: bit_simps)
  done

lemma sextetI: "take_bit 6 w = w \<Longrightarrow> unat (w::byte) < 64"
proof -
  assume "take_bit 6 w = w"
  then have "unat w = take_bit 6 (unat w)" by (metis unsigned_take_bit_eq)
  also have "\<dots> < 2 ^ 6" by (rule take_bit_nat_less_exp)
  finally show ?thesis by simp
qed

lemma sextet1: "unat (drop_bit 2 (a::byte)) < 64"
  by (rule sextetI, rule bit_word_eqI) (auto simp add: bit_simps dest: bit_byte)

lemma sextet2: "unat (push_bit 4 (a AND 3) OR drop_bit 4 (b::byte)) < 64"
  unfolding masks
  by (rule sextetI, rule bit_word_eqI) (auto simp add: bit_simps dest: bit_byte)

lemma sextet3: "unat (push_bit 2 (b AND 15) OR drop_bit 6 (c::byte)) < 64"
  unfolding masks
  by (rule sextetI, rule bit_word_eqI) (auto simp add: bit_simps dest: bit_byte)

lemma sextet4: "unat (c AND 63 :: byte) < 64"
  unfolding masks
  by (rule sextetI, rule bit_word_eqI) (auto simp add: bit_simps dest: bit_byte)

lemma sextet2': "unat (push_bit 4 (a AND 3) :: byte) < 64"
  using sextet2 [of a 0] by simp

lemma sextet3': "unat (push_bit 2 (b AND 15) :: byte) < 64"
  using sextet3 [of b 0] by simp

lemmas sextets = sextet1 sextet2 sextet3 sextet4 sextet2' sextet3'

lemma distinct_b64_alphabet: "distinct b64_alphabet"
  by (simp add: b64_alphabet_def)

lemma length_b64_alphabet: "length b64_alphabet = 64"
  by (simp add: b64_alphabet_def)

lemma table_a2b_b2a:
  assumes "unat w < 64"
  shows "table_a2b_base64 (table_b2a_base64 w) = Some w"
proof -
  from assms have u: "unat w < 64" .
  have "map_of (zip b64_alphabet [0..<64]) (b64_alphabet ! unat w) = Some ([0..<64] ! unat w)"
    by (rule map_of_zip_nth) (use u in \<open>simp_all add: length_b64_alphabet distinct_b64_alphabet\<close>)
  with u show ?thesis by (simp add: table_a2b_base64_def table_b2a_base64_def)
qed

lemma b64_alphabet_ascii: "\<forall>c \<in> set b64_alphabet. c \<noteq> CHR ''='' \<and> (of_char c :: nat) < 128"
  by (simp add: b64_alphabet_def)

lemma table_b2a_in: "unat w < 64 \<Longrightarrow> table_b2a_base64 w \<in> set b64_alphabet"
  by (simp add: table_b2a_base64_def length_b64_alphabet)

lemma table_b2a_not_pad: "unat w < 64 \<Longrightarrow> table_b2a_base64 w \<noteq> CHR ''=''"
  using table_b2a_in b64_alphabet_ascii by blast

lemma table_b2a_ascii: "unat w < 64 \<Longrightarrow> (of_char (table_b2a_base64 w) :: nat) < 128"
  using table_b2a_in b64_alphabet_ascii by blast

lemmas table_a2b_b2a_sextets =
  sextets [THEN table_a2b_b2a]

lemmas table_b2a_not_pad_sextets =
  sextets [THEN table_b2a_not_pad]

lemmas table_b2a_ascii_sextets =
  sextets [THEN table_b2a_ascii]

lemma a2b_base64_b64encode:
  "a2b_base64 0 l p acc (b64encode bs) = Inr (acc @ bs)"
proof (induction bs arbitrary: l p acc rule: b64encode.induct)
  case 1
  show ?case by simp
next
  case (2 a)
  show ?case
    using quad_byte1 [of a 0]
    by (simp add: table_a2b_b2a_sextets table_b2a_not_pad_sextets del: push_bit_and)
next
  case (3 a b)
  show ?case
    using quad_byte1 [of a b] quad_byte2 [of a b 0]
    by (simp add: table_a2b_b2a_sextets table_b2a_not_pad_sextets del: push_bit_and)
next
  case (4 a b c rest)
  show ?case
    using quad_byte1 [of a b] quad_byte2 [of a b c] quad_byte3 [of b c]
    by (simp add: table_a2b_b2a_sextets table_b2a_not_pad_sextets "4.IH" del: push_bit_and)
qed

lemma b64encode_ascii: "list_all (\<lambda>c. (of_char c :: nat) < 128) (b64encode bs)"
  by (induction bs rule: b64encode.induct)
    (simp_all add: table_b2a_ascii_sextets del: push_bit_and)

lemma b64decode_b64encode: "b64decode (b64encode bs) = Inr bs"
proof -
  have "\<not> (\<exists>c \<in> set (b64encode bs). of_char c \<ge> (128 :: nat))"
    using b64encode_ascii [of bs] by (auto simp add: list_all_iff)
  then show ?thesis
    by (simp only: b64decode_def a2b_base64_b64encode if_False append_Nil)
qed

lemma b64encode_eq_Nil: "b64encode bs = [] \<longleftrightarrow> bs = []"
  by (cases bs rule: b64encode.cases) simp_all



subsection \<open>Bits and bytes\<close>

lemma length_bools_to_bytes: "length (bools_to_bytes bools) = (length bools + 7) div 8"
  by (simp add: bools_to_bytes_def)

lemma test_bit_eq: "(w AND 2 ^ n \<noteq> 0) \<longleftrightarrow> bit (w::byte) n"
  by (simp add: bit_iff_and_push_bit_not_eq_0)

lemma nat_and_7: "(i::nat) AND 7 = i mod 8"
proof -
  have "(7::nat) = mask 3" by (simp add: mask_eq_exp_minus_1)
  then have "i AND 7 = take_bit 3 i" by (simp only: take_bit_eq_mask)
  then show ?thesis by (simp add: take_bit_eq_mod)
qed

lemma bytes_to_bits_map:
  "\<forall>i \<in> set idxs. i div 8 < length data \<Longrightarrow>
   bytes_to_bits data idxs = map (\<lambda>i. bit (data ! (i div 8)) (7 - i mod 8)) idxs"
  by (induction idxs) (simp_all add: test_bit_eq nat_and_7 drop_bit_eq_div)

lemma bit_foldl_or:
  "bit (foldl (\<lambda>bv j. if P j then bv OR push_bit (7 - j) 1 else bv) (w::byte) js) n
     \<longleftrightarrow> bit w n \<or> (\<exists>j \<in> set js. P j \<and> n = 7 - j)"
proof (induction js arbitrary: w)
  case Nil
  show ?case by simp
next
  case (Cons j js)
  have one: "bit (2 ^ (7 - j) :: byte) n \<longleftrightarrow> n = 7 - j"
    by (auto simp add: bit_simps)
  show ?case
    by (auto simp add: Cons.IH bit_or_iff one)
qed

lemma bit_byte_val:
  assumes "j < 8"
  shows "bit (byte_val bools i) (7 - j) \<longleftrightarrow> i + j < length bools \<and> bools ! (i + j)"
proof -
  have "(\<exists>j' \<in> set [0..<8]. (i + j' < length bools \<and> bools ! (i + j')) \<and> 7 - j = 7 - j')
      \<longleftrightarrow> i + j < length bools \<and> bools ! (i + j)"
  proof
    assume "\<exists>j' \<in> set [0..<8]. (i + j' < length bools \<and> bools ! (i + j')) \<and> 7 - j = 7 - j'"
    then obtain j' where j': "j' < 8" "i + j' < length bools \<and> bools ! (i + j')" "7 - j = 7 - j'"
      by auto
    from j'(1,3) assms have "j' = j" by arith
    with j'(2) show "i + j < length bools \<and> bools ! (i + j)" by simp
  next
    assume "i + j < length bools \<and> bools ! (i + j)"
    with assms show "\<exists>j' \<in> set [0..<8]. (i + j' < length bools \<and> bools ! (i + j')) \<and> 7 - j = 7 - j'"
      by auto
  qed
  then show ?thesis
    unfolding byte_val_def bit_foldl_or by simp
qed

lemma bytes_to_bits_bools_to_bytes:
  "bytes_to_bits (bools_to_bytes B) [0..<length B] = B"
proof -
  have "\<forall>i \<in> set [0..<length B]. i div 8 < length (bools_to_bytes B)"
    by (auto simp add: length_bools_to_bytes)
  then have "bytes_to_bits (bools_to_bytes B) [0..<length B] =
      map (\<lambda>i. bit (bools_to_bytes B ! (i div 8)) (7 - i mod 8)) [0..<length B]"
    by (rule bytes_to_bits_map)
  also have "\<dots> = B"
  proof (rule nth_equalityI)
    show "length (map (\<lambda>i. bit (bools_to_bytes B ! (i div 8)) (7 - i mod 8)) [0..<length B]) = length B"
      by simp
  next
    fix i
    assume "i < length (map (\<lambda>i. bit (bools_to_bytes B ! (i div 8)) (7 - i mod 8)) [0..<length B])"
    then have i: "i < length B" by simp
    then have "i div 8 < (length B + 7) div 8" by auto
    then have "bools_to_bytes B ! (i div 8) = byte_val B (8 * (i div 8))"
      by (simp add: bools_to_bytes_def)
    moreover have "bit (byte_val B (8 * (i div 8))) (7 - i mod 8) \<longleftrightarrow> B ! i"
      using i by (simp add: bit_byte_val)
    ultimately show "map (\<lambda>i. bit (bools_to_bytes B ! (i div 8)) (7 - i mod 8)) [0..<length B] ! i = B ! i"
      using i by simp
  qed
  finally show ?thesis .
qed

lemma bools_to_bytes_eq_Nil: "bools_to_bytes B = [] \<longleftrightarrow> B = []"
proof -
  have "length (bools_to_bytes B) = 0 \<longleftrightarrow> length B = 0"
    unfolding length_bools_to_bytes by arith
  then show ?thesis by simp
qed

lemma from_base64_of_to_base64: "from_base64 (to_base64 B) (int (length B)) = B"
proof (cases "B = []")
  case True
  then show ?thesis by (simp add: to_base64_def from_base64_def)
next
  case False
  then show ?thesis
    by (simp add: to_base64_def from_base64_def b64encode_eq_Nil bools_to_bytes_eq_Nil
        b64decode_b64encode bytes_to_bits_bools_to_bytes)
qed

text \<open>
  C6: for every boolean sequence \<open>B\<close>, the empty one included, the bytes that
  \<open>to_base64\<close> builds from \<open>B\<close> (most significant bit first, an incomplete last
  chunk padded with zero bits) give \<open>B\<close> back when \<open>len(B)\<close> bits are requested from
  them; this holds for the two loops alone and for \<open>from_base64\<close> after \<open>to_base64\<close>,
  through the base-64 text.
\<close>

theorem from_base64_to_base64:
  "from_base64 (to_base64 B) (int (length B)) = B
   \<and> bytes_to_bits (bools_to_bytes B) [0..<length B] = B"
  by (simp add: from_base64_of_to_base64 bytes_to_bits_bools_to_bytes)

subsection \<open>Integer lists\<close>

lemma le_bytes_word:
  "ucast (ucast w :: byte) OR push_bit 8 (ucast (ucast (drop_bit 8 w) :: byte))
     OR push_bit 16 (ucast (ucast (drop_bit 16 w) :: byte))
     OR push_bit 24 (ucast (ucast (drop_bit 24 w) :: byte)) = (w :: 32 word)"
proof (rule bit_word_eqI)
  fix n
  assume "n < LENGTH(32)"
  then have n: "n < 32" by simp
  consider "n < 8" | "8 \<le> n" "n < 16" | "16 \<le> n" "n < 24" | "24 \<le> n"
    by linarith
  then show "bit (ucast (ucast w :: byte) OR push_bit 8 (ucast (ucast (drop_bit 8 w) :: byte))
        OR push_bit 16 (ucast (ucast (drop_bit 16 w) :: byte))
        OR push_bit 24 (ucast (ucast (drop_bit 24 w) :: byte)) :: 32 word) n
      \<longleftrightarrow> bit w n"
    using n by cases (auto simp add: bit_simps)
qed

lemma sint_word_of_int_i32:
  assumes "- 2147483648 \<le> val" "val \<le> 2147483647"
  shows "sint (word_of_int val :: 32 word) = val"
proof -
  have "signed_take_bit 31 val = val"
    by (rule signed_take_bit_int_eq_self) (use assms in simp_all)
  then show ?thesis by (simp add: sint_sbintrunc')
qed

lemma struct_unpack_pack:
  assumes "struct_pack_i val = Inr packed"
  shows "struct_unpack_i (packed @ rest) = val # struct_unpack_i rest"
  using assms
  by (auto simp add: struct_pack_i_def Let_def le_bytes_word sint_word_of_int_i32
      split: if_splits)

lemma struct_pack_length: "struct_pack_i val = Inr packed \<Longrightarrow> length packed = 4"
  by (auto simp add: struct_pack_i_def Let_def split: if_splits)

lemma struct_pack_in_range:
  "- 2147483648 \<le> val \<Longrightarrow> val \<le> 2147483647 \<Longrightarrow> \<exists>packed. struct_pack_i val = Inr packed"
  by (simp add: struct_pack_i_def Let_def)

lemma byte_buffer_in_range:
  "\<forall>val \<in> set vals. - 2147483648 \<le> val \<and> val \<le> 2147483647 \<Longrightarrow>
   \<exists>buf. byte_buffer vals = Inr buf \<and> length buf = 4 * length vals
     \<and> struct_unpack_i buf = vals"
proof (induction vals)
  case Nil
  show ?case by simp
next
  case (Cons val vals)
  then obtain buf where buf: "byte_buffer vals = Inr buf" "length buf = 4 * length vals"
      "struct_unpack_i buf = vals"
    by auto
  from Cons.prems obtain packed where packed: "struct_pack_i val = Inr packed"
    using struct_pack_in_range [of val] by auto
  have "byte_buffer (val # vals) = Inr (packed @ buf)"
    by (simp add: packed buf)
  moreover have "length (packed @ buf) = 4 * length (val # vals)"
    using struct_pack_length [OF packed] buf(2) by simp
  moreover have "struct_unpack_i (packed @ buf) = val # vals"
    using struct_unpack_pack [OF packed, of buf] buf(3) by simp
  ultimately show ?case by blast
qed

lemma byte_buffer_error: "byte_buffer vals = Inl e \<Longrightarrow> e = StructError"
  by (induction vals arbitrary: e)
    (auto simp add: struct_pack_i_def Let_def split: sum.splits if_splits)

text \<open>
  C7: for every sequence of signed 32-bit integers (the extreme values, zero and negative
  values included), \<open>IntListBase64Converter.encode\<close> returns a string, and
  \<open>IntListBase64Converter.decode\<close> of that string is the original sequence in the
  original order.
\<close>

theorem IntList_round_trip:
  assumes "\<forall>val \<in> set vals. - 2147483648 \<le> val \<and> val \<le> 2147483647"
  shows "case IntListBase64Converter_encode (Some vals) of
           Inl e \<Rightarrow> False
         | Inr b64_string \<Rightarrow> IntListBase64Converter_decode b64_string = vals"
proof (cases "vals = []")
  case True
  then show ?thesis
    by (simp add: IntListBase64Converter_encode_def IntListBase64Converter_decode_def)
next
  case False
  from byte_buffer_in_range [OF assms] obtain buf where
    buf: "byte_buffer vals = Inr buf" "length buf = 4 * length vals" "struct_unpack_i buf = vals"
    by blast
  from False buf(2) have "buf \<noteq> []" by auto
  then show ?thesis
    using False buf
    by (simp add: IntListBase64Converter_encode_def IntListBase64Converter_decode_def
        b64encode_eq_Nil b64decode_b64encode)
qed

theorem IntList_round_trip_witness:
  "list_all (\<lambda>val. - 2147483648 \<le> val \<and> val \<le> 2147483647)
     [- 2147483648, 2147483647, 0, - 1, 12345 :: int]
   \<and> (case IntListBase64Converter_encode (Some [- 2147483648, 2147483647, 0, - 1, 12345]) of
         Inl e \<Rightarrow> False
       | Inr b64_string \<Rightarrow>
           IntListBase64Converter_decode b64_string = [- 2147483648, 2147483647, 0, - 1, 12345])"
proof -
  have h: "\<forall>val \<in> set [- 2147483648, 2147483647, 0, - 1, 12345 :: int].
      - 2147483648 \<le> val \<and> val \<le> 2147483647"
    by simp
  show ?thesis
    using IntList_round_trip [OF h] by simp
qed

text \<open>
  C8: \<open>IntListBase64Converter.encode\<close> raises \<open>ValueError\<close> exactly when its argument
  is \<open>None\<close>; the empty list is not an error and gives the empty string.
\<close>

theorem IntList_encode_raises:
  "(IntListBase64Converter_encode arg = Inl ValueError \<longleftrightarrow> arg = None)
   \<and> IntListBase64Converter_encode (Some []) = Inr []"
proof -
  have "IntListBase64Converter_encode (Some vals) \<noteq> Inl ValueError" for vals
    using byte_buffer_error [of vals]
    by (auto simp add: IntListBase64Converter_encode_def split: sum.splits)
  then show ?thesis
    by (cases arg) (simp_all add: IntListBase64Converter_encode_def)
qed

subsection \<open>Reading fields\<close>

lemma shift_or_bit: "(val * 2) OR (if b then 1 else 0) = 2 * val + (if b then 1 else (0::int))"
  by (cases b) (simp_all add: or_one_eq mult.commute)

lemma read_bits_bounds:
  assumes "read_bits bools n (val, i) = (val', i')" "0 \<le> val" "val < 2 ^ k"
  shows "0 \<le> val' \<and> val' < 2 ^ (k + n)"
  using assms
proof (induction n arbitrary: val i k)
  case 0
  then show ?case by simp
next
  case (Suc n)
  show ?case
  proof (cases "i < length bools")
    case True
    let ?v = "2 * val + (if bools ! i then 1 else 0)"
    from True Suc.prems(1) have r: "read_bits bools n (?v, i + 1) = (val', i')"
      by (simp add: shift_or_bit)
    have "0 \<le> ?v" using Suc.prems(2) by simp
    moreover have "?v < 2 ^ (Suc k)" using Suc.prems(3) by simp
    ultimately have "0 \<le> val' \<and> val' < 2 ^ (Suc k + n)"
      using Suc.IH [OF r] by blast
    then show ?thesis by simp
  next
    case False
    with Suc.prems(1) have r: "read_bits bools n (val, i) = (val', i')" by simp
    from Suc.IH [OF r Suc.prems(2,3)] have "0 \<le> val' \<and> val' < 2 ^ (k + n)" .
    moreover have "(2::int) ^ (k + n) \<le> 2 ^ (k + Suc n)" by simp
    ultimately show ?thesis by linarith
  qed
qed

lemma read_bits_7: "read_bits bools 7 (0, i) = (val, i') \<Longrightarrow> 0 \<le> val \<and> val < 128"
  using read_bits_bounds [of bools 7 0 i val i' 0] by simp

lemma read_bits_4: "read_bits bools 4 (0, i) = (val, i') \<Longrightarrow> 0 \<le> val \<and> val < 16"
  using read_bits_bounds [of bools 4 0 i val i' 0] by simp

lemma read_ego_mods_bounds:
  "read_ego_mods bools k i = (ego_mods, i') \<Longrightarrow>
   length ego_mods = k \<and> (\<forall>e \<in> set ego_mods. 0 \<le> e \<and> e < 128)"
proof (induction k arbitrary: i ego_mods i')
  case 0
  then show ?case by simp
next
  case (Suc k)
  obtain e i1 where e: "read_bits bools 7 (0, i) = (e, i1)" by (cases "read_bits bools 7 (0, i)")
  obtain es i2 where es: "read_ego_mods bools k i1 = (es, i2)" by (cases "read_ego_mods bools k i1")
  from Suc.prems e es have "ego_mods = e # es" by simp
  with read_bits_7 [OF e] Suc.IH [OF es] show ?case by simp
qed

lemma read_slot_ok: "read_slot bools i = (mods, i') \<Longrightarrow> mods_ok mods"
proof -
  assume a: "read_slot bools i = (mods, i')"
  obtain p i1 where p: "read_bits bools 7 (0, i) = (p, i1)" by (cases "read_bits bools 7 (0, i)")
  obtain t i2 where t: "read_bits bools 4 (0, i1) = (t, i2)" by (cases "read_bits bools 4 (0, i1)")
  obtain es i3 where es: "read_ego_mods bools 5 i2 = (es, i3)" by (cases "read_ego_mods bools 5 i2")
  from a p t es have "mods = (p, t, es)" by (simp add: read_slot_def)
  with read_bits_7 [OF p] read_bits_4 [OF t] read_ego_mods_bounds [OF es]
  show ?thesis by (simp add: mods_ok_def list_all_iff)
qed


subsection \<open>Building a slot\<close>

lemma upto_1_12: "[1..12] = [1, 2, 3, 4, 5, 6, 7, 8, 9, 10, 11, 12 :: int]"
  by (simp add: upto.simps)

lemma not_bad_personality:
  "0 \<le> p \<Longrightarrow> p < 128 \<Longrightarrow> 1 \<le> k \<Longrightarrow> k \<le> 12 \<Longrightarrow>
   \<not> bad_personality (if p > 0 then p + 10000 + k * 100 else 0)"
  by (simp add: bad_personality_def)

lemma not_bad_ego:
  "0 \<le> e \<Longrightarrow> e < 128 \<Longrightarrow> 1 \<le> k \<Longrightarrow> k \<le> 12 \<Longrightarrow>
   \<not> bad_ego (if e > 0 then e + 20000 + k * 100 else 0)"
  by (simp add: bad_ego_def)

lemma build_slot_validate:
  assumes "mods_ok mods" "1 \<le> k" "k \<le> 12"
  shows "build_slot True had_errors k mods = build_slot False had_errors k mods"
proof -
  obtain p t es where mods: "mods = (p, t, es)" by (cases mods)
  let ?egos = "map (\<lambda>ego_mod. if ego_mod > 0 then ego_mod + 20000 + k * 100 else 0) es"
  from assms mods have b: "0 \<le> p" "p < 128" "0 \<le> t" "t < 16"
      "\<forall>e \<in> set es. 0 \<le> e \<and> e < 128"
    by (simp_all add: mods_ok_def list_all_iff)
  have pid: "\<not> bad_personality (if p > 0 then p + 10000 + k * 100 else 0)"
    using b assms(2,3) by (intro not_bad_personality)
  have ego: "\<forall>x \<in> set ?egos. \<not> bad_ego x"
    using b(5) assms(2,3) by (auto simp add: bad_ego_def)
  then have egos1: "\<not> list_ex bad_ego ?egos"
    by (simp add: list_ex_iff)
  from ego have egos2: "map (\<lambda>ego_id. if bad_ego ego_id then 0 else ego_id) ?egos = ?egos"
    by (intro map_idI) simp
  have st: "\<not> bad_slot_type t"
    using b by (simp add: bad_slot_type_def)
  show ?thesis
    unfolding mods build_slot_def Let_def prod.case
    by (simp only: pid egos1 egos2 st simp_thms if_True if_False)
qed

lemma build_slot_False:
  "build_slot False had_errors k mods = (fst (build_slot False False k mods), had_errors)"
  by (cases mods) (simp add: build_slot_def Let_def)

lemma ego_nonzero:
  "1 \<le> k \<Longrightarrow> (\<lambda>e. (if e > 0 then e + 20000 + k * 100 else 0) \<noteq> (0::int)) = (\<lambda>e. e > 0)"
  by (rule ext) auto

lemma build_slot_emits:
  assumes "1 \<le> k"
  shows "map slot (fst (build_slot False False k mods)) = (if has_mod mods then [k] else [])"
proof -
  obtain p t es where mods: "mods = (p, t, es)" by (cases mods)
  have "list_ex (\<lambda>ego_id. ego_id \<noteq> 0)
          (map (\<lambda>ego_mod. if ego_mod > 0 then ego_mod + 20000 + k * 100 else 0) es)
        \<longleftrightarrow> list_ex (\<lambda>e. e > 0) es"
    using assms by (induction es) auto
  then show ?thesis
    by (simp add: mods build_slot_def Let_def has_mod_def)
qed

subsection \<open>The loop over the slots\<close>

lemma map_fst_read_slots: "map fst (read_slots bools i ks) = ks"
  by (induction ks arbitrary: i) (auto split: prod.splits)

lemma read_slots_ok: "(k, mods) \<in> set (read_slots bools i ks) \<Longrightarrow> mods_ok mods"
  by (induction ks arbitrary: i) (auto split: prod.splits dest: read_slot_ok [OF sym])

lemma foldl_decode_slot_False:
  "\<exists>i'. foldl (decode_slot False bools) (formations, had_errors, i) ks =
     (formations @ concat (map (\<lambda>(k, mods). fst (build_slot False False k mods))
                           (read_slots bools i ks)),
      had_errors, i')"
proof (induction ks arbitrary: formations i)
  case Nil
  show ?case by simp
next
  case (Cons k ks)
  obtain mods i1 where r: "read_slot bools i = (mods, i1)" by (cases "read_slot bools i")
  have step: "decode_slot False bools (formations, had_errors, i) k =
      (formations @ fst (build_slot False False k mods), had_errors, i1)"
    using build_slot_False [of had_errors k mods] by (simp add: decode_slot_def r)
  from Cons.IH [of "formations @ fst (build_slot False False k mods)" i1]
  show ?case by (simp add: step r)
qed

lemma foldl_decode_slot_validate:
  "\<forall>k \<in> set ks. 1 \<le> k \<and> k \<le> 12 \<Longrightarrow>
   foldl (decode_slot True bools) (formations, had_errors, i) ks =
   foldl (decode_slot False bools) (formations, had_errors, i) ks"
proof (induction ks arbitrary: formations had_errors i)
  case Nil
  show ?case by simp
next
  case (Cons k ks)
  obtain mods i1 where r: "read_slot bools i = (mods, i1)" by (cases "read_slot bools i")
  from Cons.prems have k: "1 \<le> k" "k \<le> 12" by simp_all
  have step: "decode_slot True bools (formations, had_errors, i) k =
      decode_slot False bools (formations, had_errors, i) k"
    using build_slot_validate [OF read_slot_ok [OF r] k, of had_errors]
    by (simp add: decode_slot_def r)
  obtain fs he j where s: "decode_slot False bools (formations, had_errors, i) k = (fs, he, j)"
    by (cases "decode_slot False bools (formations, had_errors, i) k")
  from Cons.IH [of fs he j] Cons.prems show ?case
    by (simp add: step s)
qed

lemma decode_bools_validate: "decode_bools True bools = decode_bools False bools"
  by (simp add: decode_bools_def foldl_decode_slot_validate)

lemma decode_bools_False:
  "decode_bools False bools =
     (concat (map (\<lambda>(k, mods). fst (build_slot False False k mods))
                  (read_slots bools 1 [1..12])), False)"
proof -
  from foldl_decode_slot_False [of bools "[]" False 1 "[1..12]"]
  obtain i' where "foldl (decode_slot False bools) ([], False, 1) [1..12] =
     (concat (map (\<lambda>(k, mods). fst (build_slot False False k mods))
                  (read_slots bools 1 [1..12])), False, i')"
    by auto
  then show ?thesis by (simp add: decode_bools_def)
qed

lemma decode_bools_eq:
  "decode_bools validate bools =
     (concat (map (\<lambda>(k, mods). fst (build_slot False False k mods))
                  (read_slots bools 1 [1..12])), False)"
  by (cases validate) (simp_all add: decode_bools_validate decode_bools_False)


lemma read_bits_Nil: "read_bits [] n (val, i) = (val, i)"
  by (induction n) simp_all

lemma read_ego_mods_Nil: "read_ego_mods [] k i = (replicate k 0, i)"
  by (induction k) (simp_all add: read_bits_Nil)

lemma read_slots_Nil: "read_slots [] i ks = map (\<lambda>k. (k, (0, 0, replicate 5 0))) ks"
  by (induction ks) (simp_all add: read_slot_def read_bits_Nil read_ego_mods_Nil)

lemma build_slot_zero: "fst (build_slot False False k (0, 0, replicate 5 0)) = []"
  by (simp add: build_slot_def Let_def numeral_eq_Suc)

lemma decode_bools_Nil: "decode_bools validate [] = ([], False)"
  by (simp add: decode_bools_eq read_slots_Nil build_slot_zero comp_def)

lemma FormationDeckCode_decode_eq:
  "FormationDeckCode_decode G encoded validate =
     decode_bools validate (from_base64 (decompress G encoded) 0x229)"
  by (simp add: FormationDeckCode_decode_def Let_def decode_bools_Nil decompress_def
      from_base64_def)

lemma read_slots_1_12:
  assumes "(k, mods) \<in> set (read_slots bools i [1..12])"
  shows "1 \<le> k \<and> k \<le> 12 \<and> mods_ok mods"
proof -
  from assms have "k \<in> set (map fst (read_slots bools i [1..12]))" by force
  then have "k \<in> set [1..12]" by (simp only: map_fst_read_slots)
  with read_slots_ok [OF assms] show ?thesis by simp
qed

lemma map_slot_emitted:
  "\<forall>(k, mods) \<in> set rs. 1 \<le> k \<Longrightarrow>
   map slot (concat (map (\<lambda>(k, mods). fst (build_slot False False k mods)) rs)) =
   map fst (filter (\<lambda>(k, mods). has_mod mods) rs)"
proof (induction rs)
  case Nil
  show ?case by simp
next
  case (Cons r rs)
  obtain k mods where r: "r = (k, mods)" by (cases r)
  from Cons.prems r have k: "1 \<le> k" by simp
  from Cons.prems have rest: "\<forall>(k, mods) \<in> set rs. 1 \<le> k" by simp
  have "map slot (concat (map (\<lambda>(k, mods). fst (build_slot False False k mods)) (r # rs))) =
      map slot (fst (build_slot False False k mods))
        @ map slot (concat (map (\<lambda>(k, mods). fst (build_slot False False k mods)) rs))"
    by (simp add: r)
  also have "\<dots> = (if has_mod mods then [k] else [])
        @ map fst (filter (\<lambda>(k, mods). has_mod mods) rs)"
    by (simp only: build_slot_emits [OF k] Cons.IH [OF rest])
  also have "\<dots> = map fst (filter (\<lambda>(k, mods). has_mod mods) (r # rs))"
    by (simp add: r)
  finally show ?case .
qed

lemma build_slot_ranges:
  assumes "mods_ok mods" "1 \<le> k" "k \<le> 12"
  shows "list_all (\<lambda>f.
           (personality_id f = 0 \<or> (10101 \<le> personality_id f \<and> personality_id f \<le> 11327))
           \<and> list_all (\<lambda>e. e = 0 \<or> (20101 \<le> e \<and> e \<le> 21327))
                [ego1 f, ego2 f, ego3 f, ego4 f, ego5 f]
           \<and> 0 \<le> slot_type f \<and> slot_type f \<le> 15)
         (fst (build_slot False False k mods))"
proof -
  obtain p t es where mods: "mods = (p, t, es)" by (cases mods)
  from assms(1) mods have len: "length es = 5" by (simp add: mods_ok_def)
  then obtain e1 e2 e3 e4 e5 where es: "es = [e1, e2, e3, e4, e5]"
    by (auto simp add: length_Suc_conv numeral_eq_Suc)
  from assms show ?thesis
    unfolding mods es by (simp add: build_slot_def Let_def mods_ok_def)
qed


subsection \<open>What \<open>decode\<close> returns\<close>

lemma list_all_concat_map:
  "(\<And>x. x \<in> set xs \<Longrightarrow> list_all P (g x)) \<Longrightarrow> list_all P (concat (map g xs))"
  by (induction xs) simp_all

text \<open>
  C3: for every input string, \<open>decode\<close> with \<open>validate=True\<close> returns
  \<open>had_errors = False\<close>: each personality ID it builds is 0 or lies in 10101..11327, each
  EGO ID is 0 or lies in 20101..21327, and each slot type lies in 0..15, so none of the three
  resets of the validation block is taken and the result is that of \<open>validate=False\<close>.
\<close>

theorem decode_validate_no_errors:
  "snd (FormationDeckCode_decode G encoded True) = False
   \<and> FormationDeckCode_decode G encoded True = FormationDeckCode_decode G encoded False
   \<and> list_all (\<lambda>f.
        (personality_id f = 0 \<or> (10101 \<le> personality_id f \<and> personality_id f \<le> 11327))
        \<and> list_all (\<lambda>e. e = 0 \<or> (20101 \<le> e \<and> e \<le> 21327))
             [ego1 f, ego2 f, ego3 f, ego4 f, ego5 f]
        \<and> 0 \<le> slot_type f \<and> slot_type f \<le> 15)
       (fst (FormationDeckCode_decode G encoded True))"
proof -
  let ?bools = "from_base64 (decompress G encoded) 0x229"
  let ?P = "\<lambda>f.
        (personality_id f = 0 \<or> (10101 \<le> personality_id f \<and> personality_id f \<le> 11327))
        \<and> list_all (\<lambda>e. e = 0 \<or> (20101 \<le> e \<and> e \<le> 21327))
             [ego1 f, ego2 f, ego3 f, ego4 f, ego5 f]
        \<and> 0 \<le> slot_type f \<and> slot_type f \<le> 15"
  have "list_all ?P (concat (map (\<lambda>(k, mods). fst (build_slot False False k mods))
                  (read_slots ?bools 1 [1..12])))"
  proof (rule list_all_concat_map)
    fix x
    assume x: "x \<in> set (read_slots ?bools 1 [1..12])"
    obtain k mods where km: "x = (k, mods)" by (cases x)
    from read_slots_1_12 [of k mods ?bools 1] x km
    have "1 \<le> k" "k \<le> 12" "mods_ok mods" by simp_all
    then have "list_all ?P (fst (build_slot False False k mods))"
      by (intro build_slot_ranges)
    then show "list_all ?P (case x of (k, mods) \<Rightarrow> fst (build_slot False False k mods))"
      by (simp add: km)
  qed
  then show ?thesis
    by (simp only: FormationDeckCode_decode_eq decode_bools_eq [of True]
        decode_bools_eq [of False] fst_conv snd_conv simp_thms)
qed

text \<open>
  C5: for every input and both values of \<open>validate\<close>, the slot numbers of the formations
  that \<open>decode\<close> returns are exactly the positions among 1..12, in ascending order, whose
  personality modulus or one of whose five EGO moduli is greater than 0; a position whose
  moduli are all 0 gives no formation.
\<close>

theorem decode_emits_nonzero_slots:
  "map slot (fst (FormationDeckCode_decode G encoded validate)) =
     map fst (filter (\<lambda>(slot_num, mods). has_mod mods)
                (read_slots (from_base64 (decompress G encoded) 0x229) 1 [1..12]))
   \<and> sorted_wrt (<) (map slot (fst (FormationDeckCode_decode G encoded validate)))"
proof -
  let ?rs = "read_slots (from_base64 (decompress G encoded) 0x229) 1 [1..12]"
  have ge: "\<forall>(k, mods) \<in> set ?rs. 1 \<le> k"
    using read_slots_1_12 by blast
  have eq: "map slot (fst (FormationDeckCode_decode G encoded validate)) =
      map fst (filter (\<lambda>(slot_num, mods). has_mod mods) ?rs)"
    by (simp only: FormationDeckCode_decode_eq decode_bools_eq fst_conv map_slot_emitted [OF ge])
  have "sorted_wrt (<) (map fst ?rs)"
    by (simp only: map_fst_read_slots upto_1_12) simp
  then have "sorted_wrt (\<lambda>x y. fst x < fst y) ?rs"
    by (simp only: sorted_wrt_map)
  then have "sorted_wrt (\<lambda>x y. fst x < fst y) (filter (\<lambda>(slot_num, mods). has_mod mods) ?rs)"
    by (rule sorted_wrt_filter)
  then have "sorted_wrt (<) (map fst (filter (\<lambda>(slot_num, mods). has_mod mods) ?rs))"
    by (simp only: sorted_wrt_map)
  with eq show ?thesis by simp
qed

subsection \<open>The bits that \<open>encode\<close> assembles\<close>

lemma int_to_bools_bit: "int_to_bools val n = map (bit val) (rev [0..<n])"
  by (simp add: int_to_bools_def bit_iff_odd_drop_bit and_one_eq odd_iff_mod_2_eq_one)

lemma length_int_to_bools: "length (int_to_bools val n) = n"
  by (simp add: int_to_bools_def)

lemma int_to_bools_Suc: "int_to_bools val (Suc n) = bit val n # int_to_bools val n"
  by (simp add: int_to_bools_bit)

lemma foldl_append_concat: "foldl (\<lambda>bits k. bits @ g k) acc ks = acc @ concat (map g ks)"
  by (induction ks arbitrary: acc) simp_all

lemma all_bits_eq:
  "all_bits formations =
     True # concat (map (\<lambda>k. pack_bits (slot_mods (formation_map formations k))) [1..12])"
  by (simp add: all_bits_def foldl_append_concat)

lemma length_slot_mods: "length (snd (snd (slot_mods entry))) = 5"
  by (cases entry) (simp_all add: slot_mods_def)

lemma length_pack_bits: "length (pack_bits (slot_mods entry)) = 46"
proof -
  obtain p t es where m: "slot_mods entry = (p, t, es)" by (cases "slot_mods entry")
  with length_slot_mods [of entry] have "length es = 5" by simp
  then obtain e1 e2 e3 e4 e5 where "es = [e1, e2, e3, e4, e5]"
    by (auto simp add: length_Suc_conv numeral_eq_Suc)
  then show ?thesis by (simp add: m pack_bits_def length_int_to_bools)
qed

lemma length_concat_const:
  "(\<And>x. x \<in> set xs \<Longrightarrow> length (g x) = n) \<Longrightarrow> length (concat (map g xs)) = n * length xs"
  by (induction xs) simp_all

lemma length_all_bits: "length (all_bits formations) = 553"
proof -
  have "length (concat (map (\<lambda>k. pack_bits (slot_mods (formation_map formations k))) [1..12]))
      = 46 * length [1..12 :: int]"
    by (rule length_concat_const) (rule length_pack_bits)
  then show ?thesis by (simp add: all_bits_eq)
qed

lemma last_byte_padded:
  assumes "length bools = 553"
  shows "last (bools_to_bytes bools) AND 0x7F = 0"
proof -
  have len: "length (bools_to_bytes bools) = 70"
    by (simp add: length_bools_to_bytes assms)
  then have ne: "bools_to_bytes bools \<noteq> []" by auto
  have "last (bools_to_bytes bools) = bools_to_bytes bools ! 69"
    using len by (simp add: last_conv_nth ne)
  also have "\<dots> = byte_val bools 552"
    by (simp add: bools_to_bytes_def assms)
  finally have l: "last (bools_to_bytes bools) = byte_val bools 552" .
  have m: "(0x7F :: byte) = mask 7" by (simp add: mask_eq_exp_minus_1)
  show ?thesis
    unfolding l m
  proof (rule bit_word_eqI)
    fix n
    assume "n < LENGTH(8)"
    then have n: "n < 8" by simp
    have "\<not> (bit (byte_val bools 552) n \<and> n < 7)"
    proof
      assume a: "bit (byte_val bools 552) n \<and> n < 7"
      then have "n = 7 - (7 - n)" by simp
      with a have "bit (byte_val bools 552) (7 - (7 - n))" by simp
      then have "552 + (7 - n) < length bools"
        by (subst (asm) bit_byte_val) simp_all
      with assms have "7 - n < 1" by simp
      with a show False by arith
    qed
    then show "bit (byte_val bools 552 AND mask 7) n = bit (0 :: byte) n"
      by (simp add: bit_simps)
  qed
qed

subsection \<open>The text layer\<close>

lemma unat_of_char: "unat (of_char c :: byte) = of_char c"
proof -
  have "(of_char c :: byte) = of_nat (of_char c)" by (simp add: of_nat_of_char)
  then have "unat (of_char c :: byte) = of_char c mod 256" by (simp add: unat_of_nat)
  then show ?thesis by simp
qed

lemma of_char_le_7F: "(of_char c :: nat) < 128 \<Longrightarrow> (of_char c :: byte) \<le> 0x7F"
  by (simp add: word_le_nat_alt unat_of_char)

lemma utf8_valid_ascii:
  "list_all (\<lambda>c. (of_char c :: nat) < 128) s \<Longrightarrow> utf8_valid (utf8_encode s)"
  by (induction s) (simp_all add: utf8_encode_def of_char_le_7F)

lemma utf8_decode_encode:
  assumes "list_all (\<lambda>c. (of_char c :: nat) < 128) s"
  shows "utf8_decode (utf8_encode s) = Inr s"
proof -
  have "map (\<lambda>b. char_of (unat b)) (utf8_encode s) = s"
    by (simp add: utf8_encode_def comp_def unat_of_char)
  with utf8_valid_ascii [OF assms] show ?thesis by (simp add: utf8_decode_def)
qed

lemma compress_eq_Nil: "gzip_ok G \<Longrightarrow> compress G s = [] \<longleftrightarrow> s = []"
  by (simp add: compress_def gzip_ok_def b64encode_eq_Nil)

lemma decompress_compress:
  assumes "gzip_ok G" "list_all (\<lambda>c. (of_char c :: nat) < 128) s"
  shows "decompress G (compress G s) = s"
proof (cases "s = []")
  case True
  then show ?thesis by (simp add: compress_def decompress_def)
next
  case False
  from assms(1) have r: "gzip_read G (gzip_write G (utf8_encode s)) = Inr (utf8_encode s)"
    and n: "gzip_write G (utf8_encode s) \<noteq> []"
    by (simp_all add: gzip_ok_def)
  show ?thesis
    using False n
    by (simp add: compress_def decompress_def b64encode_eq_Nil b64decode_b64encode r
        utf8_decode_encode [OF assms(2)])
qed

lemma to_base64_ascii: "list_all (\<lambda>c. (of_char c :: nat) < 128) (to_base64 bools)"
  by (simp add: to_base64_def b64encode_ascii)

lemma all_bits_not_Nil: "all_bits formations \<noteq> []"
  by (simp add: all_bits_eq)

lemma encode_standard:
  "formations \<noteq> [] \<Longrightarrow>
   FormationDeckCode_encode G formations False =
     Inr (compress G (b64encode (bools_to_bytes (all_bits formations))))"
  by (simp add: FormationDeckCode_encode_def to_base64_def all_bits_not_Nil)

lemma decode_encode_bits:
  assumes "gzip_ok G"
  shows "FormationDeckCode_decode G (compress G (to_base64 (all_bits formations))) validate =
     decode_bools validate (all_bits formations)"
proof -
  have "from_base64 (to_base64 (all_bits formations)) 0x229 = all_bits formations"
    using from_base64_of_to_base64 [of "all_bits formations"] by (simp add: length_all_bits)
  then show ?thesis
    by (simp only: FormationDeckCode_decode_eq decompress_compress [OF assms to_base64_ascii])
qed

lemma gzip_ok_stored_gzip: "gzip_ok stored_gzip"
  by (simp add: gzip_ok_def stored_gzip_def stored_header_def)

subsection \<open>Reading back what \<open>encode\<close> packs\<close>

lemma read_bits_int_to_bools:
  "read_bits (pre @ int_to_bools x n @ post) n (v, length pre) =
     (v * 2 ^ n + take_bit n x, length pre + n)"
proof (induction n arbitrary: pre v)
  case 0
  show ?case by (simp add: int_to_bools_def)
next
  case (Suc n)
  let ?b = "bit x n"
  from Suc.IH [of "pre @ [?b]" "2 * v + (if ?b then 1 else 0)"]
  have ih: "read_bits (pre @ ?b # int_to_bools x n @ post) n
               (2 * v + (if ?b then 1 else 0), Suc (length pre)) =
            ((2 * v + (if ?b then 1 else 0)) * 2 ^ n + take_bit n x, Suc (length pre + n))"
    by simp
  have tb: "take_bit (Suc n) x = (if ?b then 2 ^ n else 0) + take_bit n x"
    by (simp add: take_bit_Suc_from_most)
  have "read_bits (pre @ int_to_bools x (Suc n) @ post) (Suc n) (v, length pre) =
      read_bits (pre @ ?b # int_to_bools x n @ post) n
        (2 * v + (if ?b then 1 else 0), Suc (length pre))"
    by (simp add: int_to_bools_Suc shift_or_bit)
  also note ih
  also have "(2 * v + (if ?b then 1 else 0)) * 2 ^ n + take_bit n x =
      v * 2 ^ Suc n + take_bit (Suc n) x"
    by (simp add: tb algebra_simps)
  finally show ?case by simp
qed

lemma read_bits_field:
  "read_bits (pre @ int_to_bools x n @ post) n (0, length pre) = (take_bit n x, length pre + n)"
  using read_bits_int_to_bools [of pre x n post 0] by simp

lemma read_ego_mods_packed:
  "read_ego_mods (pre @ concat (map (\<lambda>e. int_to_bools e 7) es) @ post) (length es) (length pre) =
     (map (take_bit 7) es, length pre + 7 * length es)"
proof (induction es arbitrary: pre)
  case Nil
  show ?case by simp
next
  case (Cons e es)
  let ?rest = "concat (map (\<lambda>e. int_to_bools e 7) es) @ post"
  have r: "read_bits (pre @ int_to_bools e 7 @ ?rest) 7 (0, length pre) =
      (take_bit 7 e, length pre + 7)"
    by (rule read_bits_field)
  from Cons.IH [of "pre @ int_to_bools e 7"]
  have ih: "read_ego_mods (pre @ int_to_bools e 7 @ ?rest) (length es) (length pre + 7) =
      (map (take_bit 7) es, length pre + 7 + 7 * length es)"
    by (simp add: length_int_to_bools)
  show ?case by (simp add: r ih)
qed

lemma length_pack_bits_5:
  assumes "length es = 5"
  shows "length (pack_bits (p, t, es)) = 46"
proof -
  from assms obtain e1 e2 e3 e4 e5 where "es = [e1, e2, e3, e4, e5]"
    by (auto simp add: length_Suc_conv numeral_eq_Suc)
  then show ?thesis by (simp add: pack_bits_def length_int_to_bools)
qed

lemma read_slot_packed:
  assumes "length es = 5"
  shows "read_slot (pre @ pack_bits (p, t, es) @ post) (length pre) =
     (wire_mods (p, t, es), length pre + 46)"
proof -
  let ?egos = "concat (map (\<lambda>e. int_to_bools e 7) es)"
  let ?bools = "pre @ pack_bits (p, t, es) @ post"
  have b1: "?bools = pre @ int_to_bools p 7 @ (int_to_bools t 4 @ ?egos @ post)"
    by (simp add: pack_bits_def)
  have b2: "?bools = (pre @ int_to_bools p 7) @ int_to_bools t 4 @ (?egos @ post)"
    by (simp add: pack_bits_def)
  have b3: "?bools = (pre @ int_to_bools p 7 @ int_to_bools t 4) @ ?egos @ post"
    by (simp add: pack_bits_def)
  have r1: "read_bits ?bools 7 (0, length pre) = (take_bit 7 p, length pre + 7)"
    unfolding b1 by (rule read_bits_field)
  have "read_bits ?bools 4 (0, length (pre @ int_to_bools p 7)) =
      (take_bit 4 t, length (pre @ int_to_bools p 7) + 4)"
    unfolding b2 by (rule read_bits_field)
  then have r2: "read_bits ?bools 4 (0, length pre + 7) = (take_bit 4 t, length pre + 11)"
    by (simp add: length_int_to_bools)
  have "read_ego_mods ?bools (length es) (length (pre @ int_to_bools p 7 @ int_to_bools t 4)) =
      (map (take_bit 7) es, length (pre @ int_to_bools p 7 @ int_to_bools t 4) + 7 * length es)"
    unfolding b3 by (rule read_ego_mods_packed)
  then have r3: "read_ego_mods ?bools 5 (length pre + 11) = (map (take_bit 7) es, length pre + 46)"
    by (simp add: length_int_to_bools assms)
  show ?thesis
    by (simp only: read_slot_def r1 r2 r3 prod.case wire_mods_def)
qed

lemma read_slots_packed:
  assumes "\<And>k. length (snd (snd (m k))) = 5"
  shows "read_slots (pre @ concat (map (\<lambda>k. pack_bits (m k)) ks) @ post) (length pre) ks =
     map (\<lambda>k. (k, wire_mods (m k))) ks"
proof (induction ks arbitrary: pre)
  case Nil
  show ?case by simp
next
  case (Cons k ks)
  obtain p t es where mk: "m k = (p, t, es)" by (cases "m k")
  with assms [of k] have len: "length es = 5" by simp
  let ?rest = "concat (map (\<lambda>k. pack_bits (m k)) ks) @ post"
  have r: "read_slot (pre @ pack_bits (m k) @ ?rest) (length pre) =
      (wire_mods (m k), length pre + 46)"
    unfolding mk by (rule read_slot_packed [OF len])
  from Cons.IH [of "pre @ pack_bits (m k)"]
  have ih: "read_slots (pre @ pack_bits (m k) @ ?rest) (length pre + 46) ks =
      map (\<lambda>k. (k, wire_mods (m k))) ks"
    by (simp add: mk length_pack_bits_5 [OF len])
  show ?case by (simp add: r ih)
qed

lemma read_slots_all_bits:
  "read_slots (all_bits formations) 1 [1..12] =
     map (\<lambda>k. (k, wire_mods (slot_mods (formation_map formations k)))) [1..12]"
  using read_slots_packed [of "\<lambda>k. slot_mods (formation_map formations k)" "[True]" "[1..12]" "[]",
      OF length_slot_mods]
  by (simp add: all_bits_eq)

lemma decode_bools_all_bits:
  "decode_bools validate (all_bits formations) =
     (concat (map (\<lambda>k. fst (build_slot False False k
                               (wire_mods (slot_mods (formation_map formations k))))) [1..12]),
      False)"
  by (simp only: decode_bools_eq read_slots_all_bits map_map comp_def prod.case)

subsection \<open>The slot-keyed map\<close>

lemma foldl_map_upd:
  "foldl (\<lambda>m f. m(slot f \<mapsto> f)) m0 fs = m0 ++ map_of (rev (map (\<lambda>f. (slot f, f)) fs))"
proof (induction fs arbitrary: m0)
  case Nil
  show ?case by simp
next
  case (Cons f fs)
  have "foldl (\<lambda>m f. m(slot f \<mapsto> f)) m0 (f # fs) =
      foldl (\<lambda>m f. m(slot f \<mapsto> f)) (m0(slot f \<mapsto> f)) fs"
    by simp
  also have "\<dots> = m0(slot f \<mapsto> f) ++ map_of (rev (map (\<lambda>f. (slot f, f)) fs))"
    by (rule Cons.IH)
  also have "\<dots> = m0 ++ map_of (rev (map (\<lambda>f. (slot f, f)) (f # fs)))"
    by (rule ext) (simp add: map_add_def split: option.splits)
  finally show ?case .
qed

lemma formation_map_eq:
  "formation_map formations = map_of (rev (map (\<lambda>f. (slot f, f)) formations))"
  by (simp add: formation_map_def foldl_map_upd)

lemma map_of_find: "map_of (map (\<lambda>f. (slot f, f)) xs) k = find (\<lambda>f. slot f = k) xs"
  by (induction xs) auto

lemma formation_map_find:
  "formation_map formations k = find (\<lambda>f. slot f = k) (rev formations)"
  by (simp add: formation_map_eq rev_map map_of_find)

lemma formation_map_Some:
  assumes "formation_map formations k = Some f"
  shows "f \<in> set formations \<and> slot f = k"
proof -
  from assms have "(k, f) \<in> set (rev (map (\<lambda>f. (slot f, f)) formations))"
    unfolding formation_map_eq by (rule map_of_SomeD)
  then show ?thesis by auto
qed

lemma formation_map_distinct:
  assumes "distinct (map slot formations)" "f \<in> set formations"
  shows "formation_map formations (slot f) = Some f"
proof -
  have "map fst (rev (map (\<lambda>f. (slot f, f)) formations)) = rev (map slot formations)"
    by (induction formations) simp_all
  with assms(1) have "distinct (map fst (rev (map (\<lambda>f. (slot f, f)) formations)))"
    by simp
  moreover have "(slot f, f) \<in> set (rev (map (\<lambda>f. (slot f, f)) formations))"
    using assms(2) by auto
  ultimately show ?thesis
    unfolding formation_map_eq by (rule map_of_is_SomeI)
qed

lemma find_filter: "(\<And>x. Q x \<Longrightarrow> P x) \<Longrightarrow> find Q (filter P xs) = find Q xs"
  by (induction xs) auto

subsection \<open>A slot that the wire can carry\<close>

lemma wire_id_fields:
  assumes "wire_id base k ident" "1 \<le> k" "base = 10000 \<or> base = 20000"
  shows "take_bit 7 (id_mod ident) = id_mod ident"
    and "(if id_mod ident > 0 then id_mod ident + base + k * 100 else 0) = ident"
    and "id_mod ident > 0 \<longleftrightarrow> ident > 0"
    and "ident \<noteq> 0 \<longleftrightarrow> ident > 0"
proof -
  have m: "0 \<le> id_mod ident \<and> id_mod ident < 128
      \<and> (if id_mod ident > 0 then id_mod ident + base + k * 100 else 0) = ident
      \<and> (id_mod ident > 0 \<longleftrightarrow> ident > 0) \<and> 0 \<le> ident"
  proof (cases "ident = 0")
    case True
    then show ?thesis by (simp add: id_mod_def)
  next
    case False
    define m where "m = ident - k * 100 - base"
    from assms(1) False have mr: "1 \<le> m" "m \<le> 99" by (simp_all add: wire_id_def m_def)
    obtain b where b: "base = 100 * b" "0 \<le> b" using assms(3) by auto
    have i: "ident = m + 100 * (k + b)" by (simp add: m_def b)
    have pos: "0 < ident" using mr assms(2) b by (simp add: i)
    have "ident mod 100 = m" using mr unfolding i by presburger
    then have "id_mod ident = m" using pos by (simp add: id_mod_def)
    with mr pos show ?thesis by (simp add: i b)
  qed
  then show "take_bit 7 (id_mod ident) = id_mod ident" by (simp add: take_bit_int_eq_self)
  from m show "(if id_mod ident > 0 then id_mod ident + base + k * 100 else 0) = ident" by blast
  from m show "id_mod ident > 0 \<longleftrightarrow> ident > 0" by blast
  from m show "ident \<noteq> 0 \<longleftrightarrow> ident > 0" by auto
qed

lemma derived_eq:
  "\<lparr> slot = slot f, personality_id = personality_id f,
      ego1 = ego1 f, ego2 = ego2 f, ego3 = ego3 f, ego4 = ego4 f, ego5 = ego5 f,
      enabled = (slot_type f > 0), slot_type = slot_type f \<rparr> = derived f"
  by (cases f) (simp add: derived_def)

lemma build_slot_wire:
  assumes "formation_ok wire_id f"
  shows "fst (build_slot False False (slot f) (wire_mods (slot_mods (Some f)))) =
     (if has_ids f then [derived f] else [])"
proof -
  from assms have k: "1 \<le> slot f"
    and p: "wire_id 10000 (slot f) (personality_id f)"
    and e: "wire_id 20000 (slot f) (ego1 f)" "wire_id 20000 (slot f) (ego2 f)"
      "wire_id 20000 (slot f) (ego3 f)" "wire_id 20000 (slot f) (ego4 f)"
      "wire_id 20000 (slot f) (ego5 f)"
    and t: "0 \<le> slot_type f" "slot_type f < 16"
    by (simp_all add: formation_ok_def)
  note pf = wire_id_fields [OF p k disjI1 [OF refl]]
  note e1 = wire_id_fields [OF e(1) k disjI2 [OF refl]]
  note e2 = wire_id_fields [OF e(2) k disjI2 [OF refl]]
  note e3 = wire_id_fields [OF e(3) k disjI2 [OF refl]]
  note e4 = wire_id_fields [OF e(4) k disjI2 [OF refl]]
  note e5 = wire_id_fields [OF e(5) k disjI2 [OF refl]]
  have tt: "take_bit 4 (slot_type f) = slot_type f"
    using t by (simp add: take_bit_int_eq_self)
  have mods: "wire_mods (slot_mods (Some f)) =
      (id_mod (personality_id f), slot_type f,
       [id_mod (ego1 f), id_mod (ego2 f), id_mod (ego3 f), id_mod (ego4 f), id_mod (ego5 f)])"
    by (simp add: wire_mods_def slot_mods_def tt pf(1) e1(1) e2(1) e3(1) e4(1) e5(1))
  have egos: "map (\<lambda>ego_mod. if ego_mod > 0 then ego_mod + 20000 + slot f * 100 else 0)
        [id_mod (ego1 f), id_mod (ego2 f), id_mod (ego3 f), id_mod (ego4 f), id_mod (ego5 f)] =
      [ego1 f, ego2 f, ego3 f, ego4 f, ego5 f]"
    by (simp only: list.map e1(2) e2(2) e3(2) e4(2) e5(2))
  have ex: "list_ex (\<lambda>ego_id. ego_id \<noteq> 0) [ego1 f, ego2 f, ego3 f, ego4 f, ego5 f] =
      list_ex (\<lambda>e. 0 < e) [ego1 f, ego2 f, ego3 f, ego4 f, ego5 f]"
    by (simp only: list_ex_Nil_iff list_ex_Cons_iff e1(4) e2(4) e3(4) e4(4) e5(4))
  have "fst (build_slot False False (slot f) (wire_mods (slot_mods (Some f)))) =
      (if has_ids f
       then [\<lparr> slot = slot f, personality_id = personality_id f,
               ego1 = [ego1 f, ego2 f, ego3 f, ego4 f, ego5 f] ! 0,
               ego2 = [ego1 f, ego2 f, ego3 f, ego4 f, ego5 f] ! 1,
               ego3 = [ego1 f, ego2 f, ego3 f, ego4 f, ego5 f] ! 2,
               ego4 = [ego1 f, ego2 f, ego3 f, ego4 f, ego5 f] ! 3,
               ego5 = [ego1 f, ego2 f, ego3 f, ego4 f, ego5 f] ! 4,
               enabled = (slot_type f > 0), slot_type = slot_type f \<rparr>]
       else [])"
    unfolding mods build_slot_def Let_def prod.case has_ids_def pf(2) egos
    by (simp only: pf(3) ex if_False simp_thms fst_conv)
  then show ?thesis by (simp add: derived_eq)
qed

lemma build_slot_absent:
  "fst (build_slot False False k (wire_mods (slot_mods None))) = []"
  by (simp add: wire_mods_def slot_mods_def build_slot_def Let_def)

lemma decode_round_trip_set:
  assumes "distinct (map slot formations)" "list_all (formation_ok wire_id) formations"
  shows "set (concat (map (\<lambda>k. fst (build_slot False False k
                 (wire_mods (slot_mods (formation_map formations k))))) [1..12])) =
         derived ` {f \<in> set formations. has_ids f}"
proof -
  define g where "g = (\<lambda>k. fst (build_slot False False k
      (wire_mods (slot_mods (formation_map formations k)))))"
  have ok: "formation_ok wire_id f" if "f \<in> set formations" for f
    using assms(2) that by (simp add: list_all_iff)
  have some: "g k = (if has_ids f then [derived f] else [])"
    if "formation_map formations k = Some f" for k f
  proof -
    from formation_map_Some [OF that] have "f \<in> set formations" "slot f = k" by simp_all
    with build_slot_wire [OF ok, of f] that show ?thesis by (simp add: g_def)
  qed
  have none: "g k = []" if "formation_map formations k = None" for k
    using that by (simp add: g_def build_slot_absent)
  have "set (concat (map g [1..12])) = derived ` {f \<in> set formations. has_ids f}"
  proof (intro set_eqI iffI)
    fix x
    assume "x \<in> set (concat (map g [1..12]))"
    then obtain k where x: "x \<in> set (g k)" by auto
    show "x \<in> derived ` {f \<in> set formations. has_ids f}"
    proof (cases "formation_map formations k")
      case None
      with none [of k] x show ?thesis by simp
    next
      case (Some f)
      from formation_map_Some [OF Some] have "f \<in> set formations" by simp
      moreover from some [OF Some] x have "has_ids f \<and> x = derived f"
        by (simp split: if_splits)
      ultimately show ?thesis by blast
    qed
  next
    fix x
    assume "x \<in> derived ` {f \<in> set formations. has_ids f}"
    then obtain f where f: "f \<in> set formations" "has_ids f" "x = derived f" by blast
    from ok [OF f(1)] have "slot f \<in> set [1..12]" by (simp add: formation_ok_def)
    moreover from some [OF formation_map_distinct [OF assms(1) f(1)]] f
    have "x \<in> set (g (slot f))" by simp
    ultimately show "x \<in> set (concat (map g [1..12]))" by auto
  qed
  then show ?thesis by (simp only: g_def)
qed

lemma sorted_decode_bools: "sorted_wrt (<) (map slot (fst (decode_bools validate bools)))"
proof -
  let ?rs = "read_slots bools 1 [1..12]"
  have ge: "\<forall>(k, mods) \<in> set ?rs. 1 \<le> k"
    using read_slots_1_12 by blast
  have "sorted_wrt (<) (map fst ?rs)"
    by (simp only: map_fst_read_slots upto_1_12) simp
  then have "sorted_wrt (\<lambda>x y. fst x < fst y) (filter (\<lambda>(k, mods). has_mod mods) ?rs)"
    by (simp only: sorted_wrt_map sorted_wrt_filter)
  then have "sorted_wrt (<) (map fst (filter (\<lambda>(k, mods). has_mod mods) ?rs))"
    by (simp only: sorted_wrt_map)
  then show ?thesis
    by (simp only: decode_bools_eq fst_conv map_slot_emitted [OF ge])
qed

lemma decode_encode_slots:
  assumes "gzip_ok G"
  shows "FormationDeckCode_decode G (compress G (to_base64 (all_bits formations))) validate =
     (concat (map (\<lambda>k. fst (build_slot False False k
                (wire_mods (slot_mods (formation_map formations k))))) [1..12]), False)"
  by (simp only: decode_encode_bits [OF assms] decode_bools_all_bits)

subsection \<open>Slots absent from the map\<close>

lemma int_to_bools_0: "int_to_bools 0 n = replicate n False"
  by (induction n) (simp_all add: int_to_bools_Suc int_to_bools_def)

lemma pack_bits_absent: "pack_bits (slot_mods None) = replicate 46 False"
proof -
  have "pack_bits (slot_mods None) =
      replicate 7 False @ replicate 4 False @ replicate 7 False @ replicate 7 False
        @ replicate 7 False @ replicate 7 False @ replicate 7 False"
    by (simp add: pack_bits_def slot_mods_def int_to_bools_0)
  also have "\<dots> = replicate (7 + 4 + 7 + 7 + 7 + 7 + 7) False"
    by (simp only: replicate_add append_assoc)
  finally show ?thesis by simp
qed

lemma concat_replicate_const:
  "concat (map (\<lambda>k. replicate n x) ks) = replicate (n * length ks) x"
  by (induction ks) (simp_all add: replicate_add)

lemma all_bits_absent:
  assumes "list_all (\<lambda>f. slot f < 1 \<or> 12 < slot f) formations"
  shows "all_bits formations = True # replicate 552 False"
proof -
  have "pack_bits (slot_mods (formation_map formations k)) = replicate 46 False"
    if "k \<in> set [1..12]" for k
  proof -
    from assms that have "formation_map formations k = None"
      by (auto simp add: formation_map_find find_None_iff list_all_iff)
    then show ?thesis by (simp only: pack_bits_absent)
  qed
  then have "map (\<lambda>k. pack_bits (slot_mods (formation_map formations k))) [1..12] =
      map (\<lambda>k. replicate 46 False) [1..12]"
    by (intro map_cong refl)
  then have "all_bits formations = True # concat (map (\<lambda>k. replicate 46 False) [1..12 :: int])"
    by (simp only: all_bits_eq)
  then show ?thesis by (simp add: concat_replicate_const)
qed

lemma all_bits_filter:
  "all_bits (filter (\<lambda>f. 1 \<le> slot f \<and> slot f \<le> 12) formations) = all_bits formations"
proof -
  have "formation_map (filter (\<lambda>f. 1 \<le> slot f \<and> slot f \<le> 12) formations) k =
      formation_map formations k" if "k \<in> set [1..12]" for k
  proof -
    have "find (\<lambda>f. slot f = k) (filter (\<lambda>f. 1 \<le> slot f \<and> slot f \<le> 12) (rev formations)) =
        find (\<lambda>f. slot f = k) (rev formations)"
      using that by (intro find_filter) auto
    then show ?thesis by (simp only: formation_map_find rev_filter)
  qed
  then have "map (\<lambda>k. pack_bits (slot_mods
        (formation_map (filter (\<lambda>f. 1 \<le> slot f \<and> slot f \<le> 12) formations) k))) [1..12] =
      map (\<lambda>k. pack_bits (slot_mods (formation_map formations k))) [1..12]"
    by (intro map_cong refl) simp
  then show ?thesis by (simp only: all_bits_eq)
qed

lemma encode_not_Nil:
  assumes "gzip_ok G" "formations \<noteq> []"
  shows "\<exists>code. FormationDeckCode_encode G formations False = Inr code \<and> code \<noteq> []"
  using assms
  by (simp add: encode_standard compress_eq_Nil b64encode_eq_Nil bools_to_bytes_eq_Nil
      all_bits_not_Nil)

lemma encode_to_base64:
  "formations \<noteq> [] \<Longrightarrow>
   FormationDeckCode_encode G formations False =
     Inr (compress G (to_base64 (all_bits formations)))"
  by (simp add: FormationDeckCode_encode_def)

lemma pack_bits_fields:
  "pack_bits (p_mod, s_type, [e1, e2, e3, e4, e5]) =
     int_to_bools p_mod 7 @ int_to_bools s_type 4 @ int_to_bools e1 7 @ int_to_bools e2 7
       @ int_to_bools e3 7 @ int_to_bools e4 7 @ int_to_bools e5 7"
  by (simp add: pack_bits_def)

subsection \<open>The claims on \<open>encode\<close>\<close>

text \<open>
  C4, as the specification states it, fails on the length of the byte buffer: for the list
  holding the one formation of slot 1 with personality 10101 and first EGO 20101, the 553
  bits that \<open>encode\<close> assembles are converted to 70 bytes, not 69.
\<close>

theorem byte_buffer_is_not_69_bytes:
  "FormationDeckCode_encode stored_gzip
     [\<lparr> slot = 1, personality_id = 10101, ego1 = 20101, ego2 = 0, ego3 = 0, ego4 = 0,
        ego5 = 0, enabled = True, slot_type = 1 \<rparr>] False =
     Inr (compress stored_gzip (b64encode (bools_to_bytes (all_bits
       [\<lparr> slot = 1, personality_id = 10101, ego1 = 20101, ego2 = 0, ego3 = 0, ego4 = 0,
          ego5 = 0, enabled = True, slot_type = 1 \<rparr>]))))
   \<and> length (all_bits
       [\<lparr> slot = 1, personality_id = 10101, ego1 = 20101, ego2 = 0, ego3 = 0, ego4 = 0,
          ego5 = 0, enabled = True, slot_type = 1 \<rparr>]) = 553
   \<and> length (bools_to_bytes (all_bits
       [\<lparr> slot = 1, personality_id = 10101, ego1 = 20101, ego2 = 0, ego3 = 0, ego4 = 0,
          ego5 = 0, enabled = True, slot_type = 1 \<rparr>])) = 70
   \<and> length (bools_to_bytes (all_bits
       [\<lparr> slot = 1, personality_id = 10101, ego1 = 20101, ego2 = 0, ego3 = 0, ego4 = 0,
          ego5 = 0, enabled = True, slot_type = 1 \<rparr>])) \<noteq> 69"
  by (simp add: encode_standard length_bools_to_bytes length_all_bits)

text \<open>
  C4, amended: for every non-empty list of formations the standard path of \<open>encode\<close>
  returns the compressed base-64 text of the bytes of \<open>all_bits\<close>; \<open>all_bits\<close> is one
  leading \<open>True\<close> bit followed, for the slot numbers 1 to 12 in order, by the 46 bits of the
  slot (7 for the personality modulus, 4 for the slot type, 7 for each of the five EGO
  moduli), each field with its most significant bit first; these are 553 bits; the byte
  buffer they are converted to is 70 bytes long, and the seven low bits of its last byte
  are zero padding.
\<close>

theorem encode_bit_layout:
  "FormationDeckCode_encode G (f # fs) False =
     Inr (compress G (b64encode (bools_to_bytes (all_bits (f # fs)))))
   \<and> all_bits formations =
       True # concat (map (\<lambda>k. pack_bits (slot_mods (formation_map formations k))) [1..12])
   \<and> pack_bits (p_mod, s_type, [e1, e2, e3, e4, e5]) =
       int_to_bools p_mod 7 @ int_to_bools s_type 4 @ int_to_bools e1 7 @ int_to_bools e2 7
         @ int_to_bools e3 7 @ int_to_bools e4 7 @ int_to_bools e5 7
   \<and> length (pack_bits (slot_mods entry)) = 46
   \<and> int_to_bools val n = map (bit val) (rev [0..<n])
   \<and> length (all_bits formations) = 553
   \<and> length (bools_to_bytes (all_bits formations)) = 70
   \<and> last (bools_to_bytes (all_bits formations)) AND 0x7F = 0"
proof -
  have "length (bools_to_bytes (all_bits formations)) = 70"
    by (simp add: length_bools_to_bytes length_all_bits)
  moreover have "FormationDeckCode_encode G (f # fs) False =
      Inr (compress G (b64encode (bools_to_bytes (all_bits (f # fs)))))"
    by (rule encode_standard) simp
  moreover note all_bits_eq [of formations] pack_bits_fields [of p_mod s_type e1 e2 e3 e4 e5]
    length_pack_bits [of entry] int_to_bools_bit [of val n] length_all_bits [of formations]
    last_byte_padded [OF length_all_bits, of formations]
  ultimately show ?thesis by blast
qed

text \<open>
  C10: the standard path of \<open>encode\<close> uses the input list only through the map from slot
  numbers to formations, read at the slot numbers 1 to 12. The map gives, for a slot number,
  the last formation of the list with that slot number, so a later formation wins over an
  earlier one of the same slot; the bits are those of the map at 1..12, so removing the
  formations whose slot number lies outside 1..12 leaves the bits unchanged. A non-empty
  list that holds only such formations gives the leading bit followed by 552 zero bits,
  and, with a gzip library that reads back what it writes and never writes an empty
  stream, a non-empty code; the empty list gives the empty string.
\<close>

theorem encode_uses_slot_keyed_map:
  assumes "gzip_ok G"
  shows "formation_map formations k = find (\<lambda>f. slot f = k) (rev formations)
   \<and> all_bits formations =
       True # concat (map (\<lambda>k. pack_bits (slot_mods
                (find (\<lambda>f. slot f = k) (rev formations)))) [1..12])
   \<and> all_bits (filter (\<lambda>f. 1 \<le> slot f \<and> slot f \<le> 12) formations) = all_bits formations
   \<and> FormationDeckCode_encode G (f # fs) False =
       Inr (compress G (to_base64 (all_bits (f # fs))))
   \<and> (formations \<noteq> [] \<and> list_all (\<lambda>f. slot f < 1 \<or> 12 < slot f) formations \<longrightarrow>
        all_bits formations = True # replicate 552 False
        \<and> (\<exists>code. FormationDeckCode_encode G formations False = Inr code \<and> code \<noteq> []))
   \<and> FormationDeckCode_encode G [] False = Inr []"
proof -
  have "all_bits formations =
       True # concat (map (\<lambda>k. pack_bits (slot_mods
                (find (\<lambda>f. slot f = k) (rev formations)))) [1..12])"
    by (simp only: all_bits_eq formation_map_find)
  moreover have "FormationDeckCode_encode G (f # fs) False =
       Inr (compress G (to_base64 (all_bits (f # fs))))"
    by (rule encode_to_base64) simp
  moreover have "FormationDeckCode_encode G [] False = Inr []"
    by (simp add: FormationDeckCode_encode_def)
  moreover note formation_map_find [of formations k] all_bits_filter [of formations]
    all_bits_absent [of formations] encode_not_Nil [OF assms, of formations]
  ultimately show ?thesis by blast
qed

theorem encode_uses_slot_keyed_map_witness:
  "gzip_ok stored_gzip
   \<and> [\<lparr> slot = 13, personality_id = 11301, ego1 = 21301, ego2 = 0, ego3 = 0, ego4 = 0,
         ego5 = 0, enabled = True, slot_type = 1 \<rparr>,
       \<lparr> slot = 0, personality_id = 10001, ego1 = 0, ego2 = 0, ego3 = 0, ego4 = 0,
         ego5 = 0, enabled = True, slot_type = 2 \<rparr>] \<noteq> []
   \<and> list_all (\<lambda>f. slot f < 1 \<or> 12 < slot f)
       [\<lparr> slot = 13, personality_id = 11301, ego1 = 21301, ego2 = 0, ego3 = 0, ego4 = 0,
          ego5 = 0, enabled = True, slot_type = 1 \<rparr>,
        \<lparr> slot = 0, personality_id = 10001, ego1 = 0, ego2 = 0, ego3 = 0, ego4 = 0,
          ego5 = 0, enabled = True, slot_type = 2 \<rparr>]
   \<and> all_bits
       [\<lparr> slot = 13, personality_id = 11301, ego1 = 21301, ego2 = 0, ego3 = 0, ego4 = 0,
          ego5 = 0, enabled = True, slot_type = 1 \<rparr>,
        \<lparr> slot = 0, personality_id = 10001, ego1 = 0, ego2 = 0, ego3 = 0, ego4 = 0,
          ego5 = 0, enabled = True, slot_type = 2 \<rparr>] = True # replicate 552 False
   \<and> (\<exists>code. FormationDeckCode_encode stored_gzip
         [\<lparr> slot = 13, personality_id = 11301, ego1 = 21301, ego2 = 0, ego3 = 0, ego4 = 0,
            ego5 = 0, enabled = True, slot_type = 1 \<rparr>,
          \<lparr> slot = 0, personality_id = 10001, ego1 = 0, ego2 = 0, ego3 = 0, ego4 = 0,
            ego5 = 0, enabled = True, slot_type = 2 \<rparr>] False = Inr code \<and> code \<noteq> [])"
proof -
  let ?fs = "[\<lparr> slot = 13, personality_id = 11301, ego1 = 21301, ego2 = 0, ego3 = 0, ego4 = 0,
         ego5 = 0, enabled = True, slot_type = 1 \<rparr>,
       \<lparr> slot = 0, personality_id = 10001, ego1 = 0, ego2 = 0, ego3 = 0, ego4 = 0,
         ego5 = 0, enabled = True, slot_type = 2 \<rparr>]"
  have h: "?fs \<noteq> []" "list_all (\<lambda>f. slot f < 1 \<or> 12 < slot f) ?fs"
    by simp_all
  with encode_uses_slot_keyed_map [OF gzip_ok_stored_gzip, of ?fs]
  have "all_bits ?fs = True # replicate 552 False
      \<and> (\<exists>code. FormationDeckCode_encode stored_gzip ?fs False = Inr code \<and> code \<noteq> [])"
    by blast
  with gzip_ok_stored_gzip h show ?thesis by blast
qed

subsection \<open>Malformed input\<close>

text \<open>
  C9: \<open>decompress\<close> returns the empty string when \<open>b64decode\<close> raises, when the gzip
  reader raises, and when the UTF-8 decoder raises; \<open>from_base64\<close> returns the empty list
  when \<open>b64decode\<close> raises; \<open>decode\<close> returns \<open>([], False)\<close> when \<open>decompress\<close> or
  \<open>from_base64\<close> gives an empty result, and its \<open>had_errors\<close> is \<open>False\<close> for every input.
  No exception leaves either function: both return a value for every input string and
  every behaviour of the gzip library.
\<close>

theorem malformed_transport_soft_fails:
  "(b64decode encoded = Inl e \<longrightarrow> decompress G encoded = [])
   \<and> (b64decode encoded = Inr compressed_bytes \<and> gzip_read G compressed_bytes = Inl e
        \<longrightarrow> decompress G encoded = [])
   \<and> (b64decode encoded = Inr compressed_bytes
        \<and> gzip_read G compressed_bytes = Inr decompressed_bytes
        \<and> utf8_decode decompressed_bytes = Inl e
        \<longrightarrow> decompress G encoded = [])
   \<and> (b64decode inner_b64 = Inl e \<longrightarrow> from_base64 inner_b64 expected_count = [])
   \<and> (decompress G encoded = [] \<longrightarrow> FormationDeckCode_decode G encoded validate = ([], False))
   \<and> (from_base64 (decompress G encoded) 0x229 = []
        \<longrightarrow> FormationDeckCode_decode G encoded validate = ([], False))
   \<and> snd (FormationDeckCode_decode G encoded validate) = False"
proof -
  have "snd (FormationDeckCode_decode G encoded validate) = False"
    by (simp only: FormationDeckCode_decode_eq decode_bools_eq snd_conv)
  moreover have "from_base64 (decompress G encoded) 0x229 = []
        \<longrightarrow> FormationDeckCode_decode G encoded validate = ([], False)"
    by (simp add: FormationDeckCode_decode_def Let_def)
  moreover have "decompress G encoded = []
        \<longrightarrow> FormationDeckCode_decode G encoded validate = ([], False)"
    by (simp add: FormationDeckCode_decode_def Let_def)
  moreover have "b64decode inner_b64 = Inl e \<longrightarrow> from_base64 inner_b64 expected_count = []"
    by (simp add: from_base64_def)
  moreover have "b64decode encoded = Inl e \<longrightarrow> decompress G encoded = []"
    by (simp add: decompress_def)
  moreover have "b64decode encoded = Inr compressed_bytes \<and> gzip_read G compressed_bytes = Inl e
        \<longrightarrow> decompress G encoded = []"
    by (simp add: decompress_def)
  moreover have "b64decode encoded = Inr compressed_bytes
        \<and> gzip_read G compressed_bytes = Inr decompressed_bytes
        \<and> utf8_decode decompressed_bytes = Inl e
        \<longrightarrow> decompress G encoded = []"
    by (simp add: decompress_def)
  ultimately show ?thesis by blast
qed

theorem malformed_transport_soft_fails_witness:
  "b64decode ''not-valid-base64!'' = Inl BinasciiError
   \<and> decompress stored_gzip ''not-valid-base64!'' = []
   \<and> from_base64 ''not-valid-base64!'' 0x229 = []
   \<and> FormationDeckCode_decode stored_gzip ''not-valid-base64!'' True = ([], False)
   \<and> b64decode ''AAAA'' = Inr [0, 0, 0]
   \<and> gzip_read stored_gzip [0, 0, 0] = Inl GzipError
   \<and> decompress stored_gzip ''AAAA'' = []
   \<and> b64decode ''H4sIAAAAAAAC//8AAAAAAAAAAA=='' =
       Inr [31, 139, 8, 0, 0, 0, 0, 0, 2, 255, 255, 0, 0, 0, 0, 0, 0, 0, 0]
   \<and> gzip_read stored_gzip [31, 139, 8, 0, 0, 0, 0, 0, 2, 255, 255, 0, 0, 0, 0, 0, 0, 0, 0] =
       Inr [255]
   \<and> utf8_decode [255] = Inl UnicodeDecodeError
   \<and> decompress stored_gzip ''H4sIAAAAAAAC//8AAAAAAAAAAA=='' = []"
proof -
  have b1: "b64decode ''not-valid-base64!'' = Inl BinasciiError"
    by code_simp
  have b2: "b64decode ''AAAA'' = Inr [0, 0, 0]"
    by code_simp
  have g2: "gzip_read stored_gzip [0, 0, 0] = Inl GzipError"
    by (simp add: stored_gzip_def)
  have b3: "b64decode ''H4sIAAAAAAAC//8AAAAAAAAAAA=='' =
       Inr [31, 139, 8, 0, 0, 0, 0, 0, 2, 255, 255, 0, 0, 0, 0, 0, 0, 0, 0]"
    by code_simp
  have g3: "gzip_read stored_gzip [31, 139, 8, 0, 0, 0, 0, 0, 2, 255, 255, 0, 0, 0, 0, 0, 0, 0, 0] =
       Inr [255]"
    by (simp add: stored_gzip_def stored_header_def)
  have u3: "utf8_decode [255] = Inl UnicodeDecodeError"
    by (simp add: utf8_decode_def)
  from malformed_transport_soft_fails
    [of "''not-valid-base64!''" BinasciiError stored_gzip _ _ "''not-valid-base64!''" "0x229" True] b1
  have c1: "decompress stored_gzip ''not-valid-base64!'' = []"
    "from_base64 ''not-valid-base64!'' 0x229 = []"
    "FormationDeckCode_decode stored_gzip ''not-valid-base64!'' True = ([], False)"
    by blast+
  from malformed_transport_soft_fails [of "''AAAA''" GzipError stored_gzip "[0, 0, 0]"] b2 g2
  have c2: "decompress stored_gzip ''AAAA'' = []"
    by blast
  from malformed_transport_soft_fails
    [of "''H4sIAAAAAAAC//8AAAAAAAAAAA==''" UnicodeDecodeError stored_gzip
        "[31, 139, 8, 0, 0, 0, 0, 0, 2, 255, 255, 0, 0, 0, 0, 0, 0, 0, 0]" "[255]"] b3 g3 u3
  have c3: "decompress stored_gzip ''H4sIAAAAAAAC//8AAAAAAAAAAA=='' = []"
    by blast
  from b1 c1 b2 g2 c2 b3 g3 u3 c3 show ?thesis by blast
qed

subsection \<open>The round trip\<close>

lemma decode_slot_1_only:
  assumes "gzip_ok G" "\<And>k. formation_map formations k = (if k = 1 then Some f else None)"
  shows "FormationDeckCode_decode G (compress G (to_base64 (all_bits formations))) validate =
     (fst (build_slot False False 1 (wire_mods (slot_mods (Some f)))), False)"
  by (simp add: decode_encode_slots [OF assms(1)] upto_1_12 assms(2) build_slot_absent)

lemma decode_single_slot_1:
  assumes "gzip_ok G" "slot f = 1"
  shows "FormationDeckCode_decode G (compress G (to_base64 (all_bits [f]))) validate =
     (fst (build_slot False False 1 (wire_mods (slot_mods (Some f)))), False)"
  by (rule decode_slot_1_only [OF assms(1)]) (simp add: formation_map_def assms(2))

lemma decode_two_slot_1:
  assumes "gzip_ok G" "slot f = 1" "slot g = 1"
  shows "FormationDeckCode_decode G (compress G (to_base64 (all_bits [f, g]))) validate =
     (fst (build_slot False False 1 (wire_mods (slot_mods (Some g)))), False)"
  by (rule decode_slot_1_only [OF assms(1)]) (simp add: formation_map_def assms(2,3))

text \<open>
  C1, as the specification states it, fails on three inputs that lie in the ranges of
  section 3. The formation of slot 1 with personality 10205, which is
  \<open>1 * 100 + 10000 + 105\<close>, is encoded with the modulus \<open>10205 % 100 = 5\<close> and decoded
  with personality 10105. The formation of slot 1 with personality 10100, of modulus 0, is
  encoded with the modulus 0 and is absent from the decoded list. Of two formations of
  slot 1, with personalities 10101 and 10102, only the later one is decoded. The gzip
  library is the framing container; the results are the same for every library that reads
  back what it writes.
\<close>

theorem round_trip_fails:
  "formation_ok spec_id
     \<lparr> slot = 1, personality_id = 10205, ego1 = 0, ego2 = 0, ego3 = 0, ego4 = 0,
       ego5 = 0, enabled = True, slot_type = 1 \<rparr>
   \<and> FormationDeckCode_encode stored_gzip
       [\<lparr> slot = 1, personality_id = 10205, ego1 = 0, ego2 = 0, ego3 = 0, ego4 = 0,
          ego5 = 0, enabled = True, slot_type = 1 \<rparr>] False =
     Inr (compress stored_gzip (to_base64 (all_bits
       [\<lparr> slot = 1, personality_id = 10205, ego1 = 0, ego2 = 0, ego3 = 0, ego4 = 0,
          ego5 = 0, enabled = True, slot_type = 1 \<rparr>])))
   \<and> FormationDeckCode_decode stored_gzip
       (compress stored_gzip (to_base64 (all_bits
         [\<lparr> slot = 1, personality_id = 10205, ego1 = 0, ego2 = 0, ego3 = 0, ego4 = 0,
            ego5 = 0, enabled = True, slot_type = 1 \<rparr>]))) False =
     ([\<lparr> slot = 1, personality_id = 10105, ego1 = 0, ego2 = 0, ego3 = 0, ego4 = 0,
         ego5 = 0, enabled = True, slot_type = 1 \<rparr>], False)
   \<and> formation_ok spec_id
     \<lparr> slot = 1, personality_id = 10100, ego1 = 0, ego2 = 0, ego3 = 0, ego4 = 0,
       ego5 = 0, enabled = True, slot_type = 1 \<rparr>
   \<and> FormationDeckCode_encode stored_gzip
       [\<lparr> slot = 1, personality_id = 10100, ego1 = 0, ego2 = 0, ego3 = 0, ego4 = 0,
          ego5 = 0, enabled = True, slot_type = 1 \<rparr>] False =
     Inr (compress stored_gzip (to_base64 (all_bits
       [\<lparr> slot = 1, personality_id = 10100, ego1 = 0, ego2 = 0, ego3 = 0, ego4 = 0,
          ego5 = 0, enabled = True, slot_type = 1 \<rparr>])))
   \<and> FormationDeckCode_decode stored_gzip
       (compress stored_gzip (to_base64 (all_bits
         [\<lparr> slot = 1, personality_id = 10100, ego1 = 0, ego2 = 0, ego3 = 0, ego4 = 0,
            ego5 = 0, enabled = True, slot_type = 1 \<rparr>]))) False = ([], False)
   \<and> list_all (formation_ok spec_id)
       [\<lparr> slot = 1, personality_id = 10101, ego1 = 0, ego2 = 0, ego3 = 0, ego4 = 0,
          ego5 = 0, enabled = True, slot_type = 1 \<rparr>,
        \<lparr> slot = 1, personality_id = 10102, ego1 = 0, ego2 = 0, ego3 = 0, ego4 = 0,
          ego5 = 0, enabled = True, slot_type = 1 \<rparr>]
   \<and> FormationDeckCode_encode stored_gzip
       [\<lparr> slot = 1, personality_id = 10101, ego1 = 0, ego2 = 0, ego3 = 0, ego4 = 0,
          ego5 = 0, enabled = True, slot_type = 1 \<rparr>,
        \<lparr> slot = 1, personality_id = 10102, ego1 = 0, ego2 = 0, ego3 = 0, ego4 = 0,
          ego5 = 0, enabled = True, slot_type = 1 \<rparr>] False =
     Inr (compress stored_gzip (to_base64 (all_bits
       [\<lparr> slot = 1, personality_id = 10101, ego1 = 0, ego2 = 0, ego3 = 0, ego4 = 0,
          ego5 = 0, enabled = True, slot_type = 1 \<rparr>,
        \<lparr> slot = 1, personality_id = 10102, ego1 = 0, ego2 = 0, ego3 = 0, ego4 = 0,
          ego5 = 0, enabled = True, slot_type = 1 \<rparr>])))
   \<and> FormationDeckCode_decode stored_gzip
       (compress stored_gzip (to_base64 (all_bits
         [\<lparr> slot = 1, personality_id = 10101, ego1 = 0, ego2 = 0, ego3 = 0, ego4 = 0,
            ego5 = 0, enabled = True, slot_type = 1 \<rparr>,
          \<lparr> slot = 1, personality_id = 10102, ego1 = 0, ego2 = 0, ego3 = 0, ego4 = 0,
            ego5 = 0, enabled = True, slot_type = 1 \<rparr>]))) False =
     ([\<lparr> slot = 1, personality_id = 10102, ego1 = 0, ego2 = 0, ego3 = 0, ego4 = 0,
         ego5 = 0, enabled = True, slot_type = 1 \<rparr>], False)"
proof -
  let ?f = "\<lparr> slot = 1, personality_id = 10205, ego1 = 0, ego2 = 0, ego3 = 0, ego4 = 0,
       ego5 = 0, enabled = True, slot_type = 1 \<rparr>"
  let ?g = "\<lparr> slot = 1, personality_id = 10100, ego1 = 0, ego2 = 0, ego3 = 0, ego4 = 0,
       ego5 = 0, enabled = True, slot_type = 1 \<rparr>"
  let ?h1 = "\<lparr> slot = 1, personality_id = 10101, ego1 = 0, ego2 = 0, ego3 = 0, ego4 = 0,
       ego5 = 0, enabled = True, slot_type = 1 \<rparr>"
  let ?h2 = "\<lparr> slot = 1, personality_id = 10102, ego1 = 0, ego2 = 0, ego3 = 0, ego4 = 0,
       ego5 = 0, enabled = True, slot_type = 1 \<rparr>"
  have "formation_ok spec_id ?f" "formation_ok spec_id ?g"
      "list_all (formation_ok spec_id) [?h1, ?h2]"
    by (simp_all add: formation_ok_def spec_id_def)
  moreover have "FormationDeckCode_encode stored_gzip [?f] False =
      Inr (compress stored_gzip (to_base64 (all_bits [?f])))"
    by (rule encode_to_base64) simp
  moreover have "FormationDeckCode_encode stored_gzip [?g] False =
      Inr (compress stored_gzip (to_base64 (all_bits [?g])))"
    by (rule encode_to_base64) simp
  moreover have "FormationDeckCode_encode stored_gzip [?h1, ?h2] False =
      Inr (compress stored_gzip (to_base64 (all_bits [?h1, ?h2])))"
    by (rule encode_to_base64) simp
  moreover have "FormationDeckCode_decode stored_gzip
       (compress stored_gzip (to_base64 (all_bits [?f]))) False =
     ([\<lparr> slot = 1, personality_id = 10105, ego1 = 0, ego2 = 0, ego3 = 0, ego4 = 0,
         ego5 = 0, enabled = True, slot_type = 1 \<rparr>], False)"
    by (simp add: decode_single_slot_1 [OF gzip_ok_stored_gzip] slot_mods_def id_mod_def
        wire_mods_def build_slot_def Let_def)
  moreover have "FormationDeckCode_decode stored_gzip
       (compress stored_gzip (to_base64 (all_bits [?g]))) False = ([], False)"
    by (simp add: decode_single_slot_1 [OF gzip_ok_stored_gzip] slot_mods_def id_mod_def
        wire_mods_def build_slot_def Let_def)
  moreover have "FormationDeckCode_decode stored_gzip
       (compress stored_gzip (to_base64 (all_bits [?h1, ?h2]))) False = ([?h2], False)"
    by (simp add: decode_two_slot_1 [OF gzip_ok_stored_gzip] slot_mods_def id_mod_def
        wire_mods_def build_slot_def Let_def)
  ultimately show ?thesis by blast
qed

text \<open>
  C1, amended: for every list of formations with pairwise different slot numbers in 1..12,
  slot types in 0..15, and IDs that are 0 or \<open>slot * 100 + base + modulus\<close> with a modulus
  in 1..99 (base 10000 for the personality, 20000 for an EGO), and for every gzip library
  that reads back what it writes, the standard \<open>encode\<close> returns a code, and \<open>decode\<close> of
  that code returns, with \<open>had_errors = False\<close> and in ascending slot order, exactly the
  formations of the list that have a nonzero ID, each with the same slot, personality ID,
  EGO IDs and slot type, and with \<open>enabled\<close> set to \<open>slot_type > 0\<close>.
\<close>

theorem encode_decode_round_trip:
  assumes "gzip_ok G"
    and "distinct (map slot formations)"
    and "list_all (formation_ok wire_id) formations"
  shows "\<exists>code. FormationDeckCode_encode G formations False = Inr code
     \<and> set (fst (FormationDeckCode_decode G code validate)) =
         derived ` {f \<in> set formations. has_ids f}
     \<and> sorted_wrt (<) (map slot (fst (FormationDeckCode_decode G code validate)))
     \<and> snd (FormationDeckCode_decode G code validate) = False"
proof (cases "formations = []")
  case True
  then show ?thesis
    by (simp add: FormationDeckCode_encode_def FormationDeckCode_decode_def)
next
  case False
  let ?code = "compress G (to_base64 (all_bits formations))"
  have e: "FormationDeckCode_encode G formations False = Inr ?code"
    using False by (rule encode_to_base64)
  have d: "FormationDeckCode_decode G ?code validate =
      (concat (map (\<lambda>k. fst (build_slot False False k
                (wire_mods (slot_mods (formation_map formations k))))) [1..12]), False)"
    by (rule decode_encode_slots [OF assms(1)])
  have s: "set (fst (FormationDeckCode_decode G ?code validate)) =
      derived ` {f \<in> set formations. has_ids f}"
    by (simp only: d fst_conv decode_round_trip_set [OF assms(2,3)])
  have o: "sorted_wrt (<) (map slot (fst (FormationDeckCode_decode G ?code validate)))"
    by (simp only: decode_encode_bits [OF assms(1)] sorted_decode_bools)
  have h: "snd (FormationDeckCode_decode G ?code validate) = False"
    by (simp only: d snd_conv)
  from e s o h show ?thesis by blast
qed

theorem encode_decode_round_trip_witness:
  "gzip_ok stored_gzip
   \<and> distinct (map slot
       [\<lparr> slot = 3, personality_id = 10307, ego1 = 20301, ego2 = 20399, ego3 = 0, ego4 = 0,
          ego5 = 0, enabled = True, slot_type = 15 \<rparr>,
        \<lparr> slot = 1, personality_id = 10101, ego1 = 0, ego2 = 0, ego3 = 0, ego4 = 0,
          ego5 = 20105, enabled = False, slot_type = 0 \<rparr>])
   \<and> list_all (formation_ok wire_id)
       [\<lparr> slot = 3, personality_id = 10307, ego1 = 20301, ego2 = 20399, ego3 = 0, ego4 = 0,
          ego5 = 0, enabled = True, slot_type = 15 \<rparr>,
        \<lparr> slot = 1, personality_id = 10101, ego1 = 0, ego2 = 0, ego3 = 0, ego4 = 0,
          ego5 = 20105, enabled = False, slot_type = 0 \<rparr>]
   \<and> (\<exists>code. FormationDeckCode_encode stored_gzip
         [\<lparr> slot = 3, personality_id = 10307, ego1 = 20301, ego2 = 20399, ego3 = 0, ego4 = 0,
            ego5 = 0, enabled = True, slot_type = 15 \<rparr>,
          \<lparr> slot = 1, personality_id = 10101, ego1 = 0, ego2 = 0, ego3 = 0, ego4 = 0,
            ego5 = 20105, enabled = False, slot_type = 0 \<rparr>] False = Inr code
       \<and> set (fst (FormationDeckCode_decode stored_gzip code True)) =
           {\<lparr> slot = 3, personality_id = 10307, ego1 = 20301, ego2 = 20399, ego3 = 0, ego4 = 0,
              ego5 = 0, enabled = True, slot_type = 15 \<rparr>,
            \<lparr> slot = 1, personality_id = 10101, ego1 = 0, ego2 = 0, ego3 = 0, ego4 = 0,
              ego5 = 20105, enabled = False, slot_type = 0 \<rparr>}
       \<and> snd (FormationDeckCode_decode stored_gzip code True) = False)"
proof -
  let ?fs = "[\<lparr> slot = 3, personality_id = 10307, ego1 = 20301, ego2 = 20399, ego3 = 0, ego4 = 0,
          ego5 = 0, enabled = True, slot_type = 15 \<rparr>,
        \<lparr> slot = 1, personality_id = 10101, ego1 = 0, ego2 = 0, ego3 = 0, ego4 = 0,
          ego5 = 20105, enabled = False, slot_type = 0 \<rparr>]"
  have h1: "distinct (map slot ?fs)" by simp
  have h2: "list_all (formation_ok wire_id) ?fs"
    by (simp add: formation_ok_def wire_id_def)
  have a: "filter has_ids ?fs = ?fs" by (simp add: has_ids_def)
  have b: "map derived ?fs = ?fs" by (simp add: derived_def)
  have "derived ` {f \<in> set ?fs. has_ids f} = set (map derived (filter has_ids ?fs))"
    by (simp only: set_map set_filter)
  then have i: "derived ` {f \<in> set ?fs. has_ids f} = set ?fs"
    by (simp only: a b)
  from encode_decode_round_trip [OF gzip_ok_stored_gzip h1 h2, of True]
  obtain code where "FormationDeckCode_encode stored_gzip ?fs False = Inr code"
    "set (fst (FormationDeckCode_decode stored_gzip code True)) = set ?fs"
    "snd (FormationDeckCode_decode stored_gzip code True) = False"
    unfolding i by blast
  then have "\<exists>code. FormationDeckCode_encode stored_gzip ?fs False = Inr code
       \<and> set (fst (FormationDeckCode_decode stored_gzip code True)) = set ?fs
       \<and> snd (FormationDeckCode_decode stored_gzip code True) = False"
    by blast
  with gzip_ok_stored_gzip h1 h2 show ?thesis by simp
qed

text \<open>
  C2: the formation of \<open>test_validation_invalid_personality_id\<close>, with personality
  99999999 in slot 1, is encoded with the modulus \<open>99999999 % 100 = 99\<close>; \<open>decode\<close> with
  \<open>validate=True\<close> rebuilds the personality 10199, which the validation block accepts, and
  returns \<open>had_errors = False\<close>, for every gzip library that reads back what it writes.
\<close>

theorem invalid_personality_id_is_not_caught:
  assumes "gzip_ok G"
  shows "\<exists>code. FormationDeckCode_encode G
         [\<lparr> slot = 1, personality_id = 99999999, ego1 = 0, ego2 = 0, ego3 = 0, ego4 = 0,
            ego5 = 0, enabled = True, slot_type = 1 \<rparr>] False = Inr code
     \<and> FormationDeckCode_decode G code True =
         ([\<lparr> slot = 1, personality_id = 10199, ego1 = 0, ego2 = 0, ego3 = 0, ego4 = 0,
             ego5 = 0, enabled = True, slot_type = 1 \<rparr>], False)"
proof -
  let ?f = "\<lparr> slot = 1, personality_id = 99999999, ego1 = 0, ego2 = 0, ego3 = 0, ego4 = 0,
       ego5 = 0, enabled = True, slot_type = 1 \<rparr>"
  have "FormationDeckCode_encode G [?f] False = Inr (compress G (to_base64 (all_bits [?f])))"
    by (rule encode_to_base64) simp
  moreover have "FormationDeckCode_decode G (compress G (to_base64 (all_bits [?f]))) True =
     ([\<lparr> slot = 1, personality_id = 10199, ego1 = 0, ego2 = 0, ego3 = 0, ego4 = 0,
         ego5 = 0, enabled = True, slot_type = 1 \<rparr>], False)"
    by (simp add: decode_single_slot_1 [OF assms] slot_mods_def id_mod_def
        wire_mods_def build_slot_def Let_def)
  ultimately show ?thesis by blast
qed

theorem invalid_personality_id_is_not_caught_witness:
  "gzip_ok stored_gzip
   \<and> (\<exists>code. FormationDeckCode_encode stored_gzip
         [\<lparr> slot = 1, personality_id = 99999999, ego1 = 0, ego2 = 0, ego3 = 0, ego4 = 0,
            ego5 = 0, enabled = True, slot_type = 1 \<rparr>] False = Inr code
       \<and> FormationDeckCode_decode stored_gzip code True =
           ([\<lparr> slot = 1, personality_id = 10199, ego1 = 0, ego2 = 0, ego3 = 0, ego4 = 0,
               ego5 = 0, enabled = True, slot_type = 1 \<rparr>], False))"
  using invalid_personality_id_is_not_caught [OF gzip_ok_stored_gzip] gzip_ok_stored_gzip
  by (rule conjI [rotated])

end
